theory Spec2Isabelle
  imports Complex_Main "HOL-Library.Sublist"
begin

section \<open>Ranking engine of react-docs-mcp: a shallow embedding\<close>

text \<open>
  The development embeds \<^verbatim>\<open>src/searchEngine.ts\<close>, the similarity function of
  \<^verbatim>\<open>src/embeddingService.ts\<close> and the constants of \<^verbatim>\<open>src/config.ts\<close>.

  Conventions of the embedding:
  \<^item> a JavaScript number is a \<^typ>\<open>real\<close> (exact arithmetic; rounding, infinities and NaN
    of IEEE doubles are outside the model); a number used as a count or an index is an
    \<^typ>\<open>int\<close>;
  \<^item> a JavaScript string is a \<^typ>\<open>string\<close> of ASCII characters: letter case and white
    space are those of ASCII, and a position counts characters;
  \<^item> a thrown exception is the \<open>Inl\<close> side of a sum; an operation of the engine returns
    its outcome together with the engine's state after it, also when it throws;
  \<^item> the asynchronous methods are run to completion one after the other (no interleaving of
    two calls);
  \<^item> the collaborators that are not part of the engine (corpus access, the markdown
    parser, the embedding pipeline, and the regular expressions of the JavaScript runtime
    beyond the fragment embedded below) are fields of a record of functions.
\<close>

subsection \<open>Errors\<close>

datatype error =
    Error string
  | SyntaxError

text \<open>
  \<open>Error m\<close> is a JavaScript \<^verbatim>\<open>Error\<close> with message \<open>m\<close>, \<open>SyntaxError\<close> the exception of
  the \<^verbatim>\<open>RegExp\<close> constructor on an invalid pattern.
\<close>

subsection \<open>Strings\<close>

definition lowerChar :: "char \<Rightarrow> char" where
  "lowerChar c =
     (case map_of (zip ''ABCDEFGHIJKLMNOPQRSTUVWXYZ'' ''abcdefghijklmnopqrstuvwxyz'') c of
        Some l \<Rightarrow> l
      | None \<Rightarrow> c)"

definition toLowerCase :: "string \<Rightarrow> string" where
  "toLowerCase s = map lowerChar s"

text \<open>White space, for the regular expression class of that name and for \<^verbatim>\<open>trim\<close>: tab, line feed, vertical tab, form feed,
  carriage return, space.\<close>

definition isSpace :: "char \<Rightarrow> bool" where
  "isSpace c = (c \<in> set [CHR 0x09, CHR 0x0A, CHR 0x0B, CHR 0x0C, CHR 0x0D, CHR '' ''])"

definition trim :: "string \<Rightarrow> string" where
  "trim s = rev (dropWhile isSpace (rev (dropWhile isSpace s)))"

text \<open>\<^verbatim>\<open>s.split\<close> on the runs of white space: \<open>inSep\<close> tells that the scan is inside a run of white space,
  \<open>cur\<close> is the current token, reversed. A leading or trailing run yields an empty token,
  as in JavaScript.\<close>

fun splitSpaces :: "bool \<Rightarrow> string \<Rightarrow> string \<Rightarrow> string list" where
  "splitSpaces inSep cur [] = [rev cur]"
| "splitSpaces inSep cur (c # cs) =
     (if isSpace c then
        (if inSep then splitSpaces True cur cs else rev cur # splitSpaces True [] cs)
      else splitSpaces False (c # cur) cs)"

text \<open>The query terms: \<^verbatim>\<open>query.toLowerCase()\<close>, split on white space, filtered by
  \<^verbatim>\<open>Boolean\<close> (which drops the empty tokens).\<close>

definition queryTermsOf :: "string \<Rightarrow> string list" where
  "queryTermsOf query = filter (\<lambda>t. t \<noteq> []) (splitSpaces False [] (toLowerCase query))"

text \<open>\<^verbatim>\<open>s.includes(t)\<close> (\<open>includes\<close> is a keyword of Isabelle)\<close>

fun strIncludes :: "string \<Rightarrow> string \<Rightarrow> bool" where
  "strIncludes [] t = (t = [])"
| "strIncludes (c # cs) t = (prefix t (c # cs) \<or> strIncludes cs t)"

text \<open>\<^verbatim>\<open>s.indexOf(t)\<close>, with \<open>-1\<close> when \<open>t\<close> does not occur.\<close>

fun indexOf :: "string \<Rightarrow> string \<Rightarrow> int" where
  "indexOf [] t = (if t = [] then 0 else -1)"
| "indexOf (c # cs) t =
     (if prefix t (c # cs) then 0
      else (let i = indexOf cs t in if i = -1 then -1 else i + 1))"

text \<open>\<^verbatim>\<open>xs.slice(start, end)\<close> of strings and arrays, for integral arguments: a negative
  argument counts from the end, and both are clamped to the bounds.\<close>

definition slice :: "'a list \<Rightarrow> int \<Rightarrow> int \<Rightarrow> 'a list" where
  "slice xs start stop =
     (let len = int (length xs);
          lo = (if start < 0 then max (len + start) 0 else min start len);
          hi = (if stop < 0 then max (len + stop) 0 else min stop len)
      in take (nat (hi - lo)) (drop (nat lo) xs))"

subsection \<open>Regular expressions\<close>

text \<open>
  \<^verbatim>\<open>scoreDocument\<close> builds \<^verbatim>\<open>new RegExp(term, 'gi')\<close> from the raw term and counts the
  matches of \<^verbatim>\<open>plainTextLower.match(regex)\<close>. The constructor and the matcher belong to
  the JavaScript runtime. A fragment of them is embedded here: the patterns made of
  ordinary characters, the wildcard \<^verbatim>\<open>.\<close> and capturing groups \<^verbatim>\<open>( )\<close> around them. Such a
  pattern is a sequence of atoms, since a group without alternative or quantifier matches
  what its content matches; a closing parenthesis that closes nothing and a group left
  open are syntax errors. A pattern with any other syntax character
  (\<^verbatim>\<open>* + ? [ ] { } ^ $ |\<close>, the backslash \<open>CHR 0x5C\<close>, and \<^verbatim>\<open>(?\<close>) is outside the fragment:
  for it the runtime is a parameter, \<open>engine\<close>, which tells for a pattern whether the
  constructor throws (\<open>None\<close>) or, if not, how many matches the regular expression with
  the flags \<^verbatim>\<open>gi\<close> has in a string. What is proved below holds whatever that parameter is.
\<close>

datatype atom = Lit char | AnyChar

datatype parsed = Sequence "atom list" | Invalid | Outside

type_synonym regExpEngine = "string \<Rightarrow> (string \<Rightarrow> nat) option"

definition consAtom :: "atom \<Rightarrow> parsed \<Rightarrow> parsed" where
  "consAtom a r =
     (case r of
        Sequence as \<Rightarrow> Sequence (a # as)
      | Invalid \<Rightarrow> Invalid
      | Outside \<Rightarrow> Outside)"

fun parsePattern :: "nat \<Rightarrow> string \<Rightarrow> parsed" where
  "parsePattern depth [] = (if depth = 0 then Sequence [] else Invalid)"
| "parsePattern depth (c # cs) =
     (if c = CHR ''('' then
        (case cs of
           [] \<Rightarrow> Invalid
         | c' # _ \<Rightarrow> if c' = CHR ''?'' then Outside else parsePattern (Suc depth) cs)
      else if c = CHR '')'' then
        (case depth of 0 \<Rightarrow> Invalid | Suc d \<Rightarrow> parsePattern d cs)
      else if c = CHR ''.'' then consAtom AnyChar (parsePattern depth cs)
      else if c \<in> set (CHR 0x5C # ''*+?[]{}^$|'') then Outside
      else consAtom (Lit c) (parsePattern depth cs))"

text \<open>A regular expression with the flags \<^verbatim>\<open>gi\<close>: a sequence of atoms of the fragment, or
  the match counter that the runtime gives for a pattern outside it.\<close>

datatype regexp = Atoms "atom list" | Runtime "string \<Rightarrow> nat"

text \<open>\<^verbatim>\<open>new RegExp(term, 'gi')\<close>\<close>

definition RegExp :: "regExpEngine \<Rightarrow> string \<Rightarrow> error + regexp" where
  "RegExp engine pattern =
     (case parsePattern 0 pattern of
        Sequence as \<Rightarrow> Inr (Atoms as)
      | Invalid \<Rightarrow> Inl SyntaxError
      | Outside \<Rightarrow>
          (case engine pattern of
             None \<Rightarrow> Inl SyntaxError
           | Some count \<Rightarrow> Inr (Runtime count)))"

text \<open>With the flag \<^verbatim>\<open>i\<close> a character matches a literal when both have the same
  canonical form; the wildcard matches all but the line terminators.\<close>

definition atomMatches :: "atom \<Rightarrow> char \<Rightarrow> bool" where
  "atomMatches a c =
     (case a of
        Lit l \<Rightarrow> lowerChar l = lowerChar c
      | AnyChar \<Rightarrow> c \<noteq> CHR 0x0A \<and> c \<noteq> CHR 0x0D)"

fun matchesAt :: "atom list \<Rightarrow> string \<Rightarrow> bool" where
  "matchesAt [] s = True"
| "matchesAt (a # as) [] = False"
| "matchesAt (a # as) (c # cs) = (atomMatches a c \<and> matchesAt as cs)"

text \<open>
  \<^verbatim>\<open>s.match(regex)\<close> with the flag \<^verbatim>\<open>g\<close> collects the matches from left to right, each
  search starting where the previous match ended, one character further after an empty
  match. \<open>countMatches p skip s\<close> counts them in \<open>s\<close> for a sequence of atoms \<open>p\<close>, the
  first \<open>skip\<close> characters belonging to the previous match.
\<close>

fun countMatches :: "atom list \<Rightarrow> nat \<Rightarrow> string \<Rightarrow> nat" where
  "countMatches p skip [] = (if skip = 0 \<and> p = [] then 1 else 0)"
| "countMatches p skip (c # cs) =
     (if 0 < skip then countMatches p (skip - 1) cs
      else if matchesAt p (c # cs) then 1 + countMatches p (length p - 1) cs
      else countMatches p 0 cs)"

text \<open>The number of elements of \<^verbatim>\<open>s.match(regex)\<close>, \<open>0\<close> for \<^verbatim>\<open>null\<close>.\<close>

definition matchCount :: "regexp \<Rightarrow> string \<Rightarrow> nat" where
  "matchCount regex s =
     (case regex of
        Atoms p \<Rightarrow> countMatches p 0 s
      | Runtime count \<Rightarrow> count s)"

subsection \<open>Configuration (\<^verbatim>\<open>config.ts\<close>)\<close>

definition defaultLimit :: int where "defaultLimit = 10"
definition maxLimit :: int where "maxLimit = 50"
definition configMinScore :: real where "configMinScore = 0.1"
definition semanticSearchEnabled :: bool where "semanticSearchEnabled = True"
definition semanticMinSimilarity :: real where "semanticMinSimilarity = 0.3"
definition hybridKeywordWeight :: real where "hybridKeywordWeight = 0.3"
definition hybridSemanticWeight :: real where "hybridSemanticWeight = 0.7"
definition sections :: "string list" where
  "sections = [''learn'', ''reference'', ''blog'', ''community'']"

subsection \<open>Data model (\<^verbatim>\<open>types.ts\<close>)\<close>

record DocMetadata =
  title :: string
  description :: "string option"

record ParsedDoc =
  path :: string
  sectionName :: string
  metadata :: DocMetadata
  content :: string
  plainText :: string
  embedding :: "real list option"

record SearchResult =
  doc :: ParsedDoc
  score :: real
  snippet :: string

text \<open>\<open>sectionName\<close> is the field \<^verbatim>\<open>section\<close> of the source, \<open>sectionOpt\<close> the option of
  that name. An absent field of \<^verbatim>\<open>SearchOptions\<close> is \<open>None\<close>; a call without options is
  a call with \<open>noOptions\<close>. The limit is an integer of either sign (a limit with a
  fractional part is outside the model).\<close>

record SearchOptions =
  sectionOpt :: "string option"
  limit :: "int option"
  minScore :: "real option"
  useSemanticSearch :: "bool option"

definition noOptions :: SearchOptions where
  "noOptions = \<lparr>sectionOpt = None, limit = None, minScore = None, useSemanticSearch = None\<rparr>"

subsection \<open>Cosine similarity (\<^verbatim>\<open>embeddingService.ts\<close>)\<close>

text \<open>The loop over \<open>i\<close>, on two arrays of the same length, with its three accumulators.\<close>

fun cosineLoop :: "real list \<Rightarrow> real list \<Rightarrow> real \<times> real \<times> real \<Rightarrow> real \<times> real \<times> real" where
  "cosineLoop (x # xs) (y # ys) (dotProduct, normA, normB) =
     cosineLoop xs ys (dotProduct + x * y, normA + x * x, normB + y * y)"
| "cosineLoop xs ys acc = acc"

definition cosineSimilarity :: "real list \<Rightarrow> real list \<Rightarrow> error + real" where
  "cosineSimilarity a b =
     (if length a \<noteq> length b then Inl (Error ''Vectors must have same length'')
      else
        (case cosineLoop a b (0, 0, 0) of
           (dotProduct, normA, normB) \<Rightarrow>
             (let magnitude = sqrt normA * sqrt normB
              in if magnitude = 0 then Inr 0 else Inr (dotProduct / magnitude))))"

text \<open>The mathematical notions the specification names.\<close>

definition dot :: "real list \<Rightarrow> real list \<Rightarrow> real" where
  "dot a b = (\<Sum>i < length a. a ! i * b ! i)"

definition magnitude :: "real list \<Rightarrow> real" where
  "magnitude a = sqrt (\<Sum>i < length a. (a ! i)\<^sup>2)"

subsection \<open>Keyword scoring (\<^verbatim>\<open>scoreDocument\<close>)\<close>

text \<open>The body of the loop over the query terms, for one term \<open>tm\<close>: the four additions
  to \<open>score\<close>, in the order of the source. The regular expression is built from the raw
  term; when its constructor throws, so does the loop. \<open>engine\<close> is the runtime for the
  patterns outside the embedded fragment.\<close>

definition scoreTerm :: "regExpEngine \<Rightarrow> ParsedDoc \<Rightarrow> string \<Rightarrow> real \<Rightarrow> error + real" where
  "scoreTerm engine d tm score0 =
     (let titleLower = toLowerCase (title (metadata d));
          plainTextLower = toLowerCase (plainText d);
          pathLower = toLowerCase (path d);
          score1 = (if strIncludes titleLower tm then score0 + 10 else score0);
          score2 = (if strIncludes pathLower tm then score1 + 5 else score1)
      in case RegExp engine tm of
           Inl e \<Rightarrow> Inl e
         | Inr regex \<Rightarrow>
             (let matches = matchCount regex plainTextLower;
                  score3 = (if 0 < matches then score2 + real matches * 0.5 else score2);
                  score4 =
                    (case description (metadata d) of
                       None \<Rightarrow> score3
                     | Some ds \<Rightarrow> if strIncludes (toLowerCase ds) tm then score3 + 3 else score3)
              in Inr score4))"

fun scoreLoop :: "regExpEngine \<Rightarrow> ParsedDoc \<Rightarrow> string list \<Rightarrow> real \<Rightarrow> error + real" where
  "scoreLoop engine d [] score0 = Inr score0"
| "scoreLoop engine d (tm # rest) score0 =
     (case scoreTerm engine d tm score0 of
        Inl e \<Rightarrow> Inl e
      | Inr score1 \<Rightarrow> scoreLoop engine d rest score1)"

definition scoreDocument :: "regExpEngine \<Rightarrow> ParsedDoc \<Rightarrow> string list \<Rightarrow> error + real" where
  "scoreDocument engine d queryTerms = scoreLoop engine d queryTerms 0"

subsection \<open>Snippets (\<^verbatim>\<open>generateSnippet\<close>)\<close>

text \<open>The loop that looks for the first occurrence of any term; its state is the pair
  of \<open>firstMatchIndex\<close> and \<open>matchedTerm\<close>, initially \<open>-1\<close> and the empty string.\<close>

fun findFirstMatch :: "string \<Rightarrow> string list \<Rightarrow> int \<times> string \<Rightarrow> int \<times> string" where
  "findFirstMatch text [] found = found"
| "findFirstMatch text (tm # rest) (firstMatchIndex, matchedTerm) =
     (let index = indexOf (toLowerCase text) tm
      in if index \<noteq> -1 \<and> (firstMatchIndex = -1 \<or> index < firstMatchIndex)
         then findFirstMatch text rest (index, tm)
         else findFirstMatch text rest (firstMatchIndex, matchedTerm))"

definition contextRadius :: int where "contextRadius = 75"

text \<open>In \<^verbatim>\<open>description || plainText.slice(0, 150) + '...'\<close> a description that is absent or
  the empty string gives way to the right-hand side.\<close>

definition generateSnippet :: "ParsedDoc \<Rightarrow> string list \<Rightarrow> string" where
  "generateSnippet d queryTerms =
     (case findFirstMatch (plainText d) queryTerms (-1, []) of
        (firstMatchIndex, matchedTerm) \<Rightarrow>
          if firstMatchIndex = -1 then
            (case description (metadata d) of
               None \<Rightarrow> slice (plainText d) 0 150 @ ''...''
             | Some ds \<Rightarrow> if ds = [] then slice (plainText d) 0 150 @ ''...'' else ds)
          else
            (let start = max 0 (firstMatchIndex - contextRadius);
                 stop = min (int (length (plainText d)))
                          (firstMatchIndex + int (length matchedTerm) + contextRadius);
                 snippet0 = slice (plainText d) start stop;
                 snippet1 = (if 0 < start then ''...'' @ snippet0 else snippet0);
                 snippet2 = (if stop < int (length (plainText d)) then snippet1 @ ''...''
                             else snippet1)
             in trim snippet2))"

subsection \<open>The engine and its collaborators\<close>

text \<open>
  \<open>getAllDocs\<close> and \<open>readDoc\<close> are the corpus access of \<^verbatim>\<open>DocsManager\<close>, \<open>parseMarkdown\<close> the
  parser; \<open>loadPipeline\<close> and \<open>runPipeline\<close> are the embedding model of the library: loading
  it (\<open>Some m\<close>: it fails with message \<open>m\<close>) and running it on a text (\<open>Inl m\<close>: it fails
  with message \<open>m\<close>). \<open>jsRegExp\<close> is the runtime's answer on the patterns outside the
  embedded fragment of regular expressions.
\<close>

record collaborators =
  getAllDocs :: "error + string list"
  readDoc :: "string \<Rightarrow> error + string"
  parseMarkdown :: "string \<Rightarrow> string \<Rightarrow> error + ParsedDoc"
  loadPipeline :: "string option"
  runPipeline :: "string \<Rightarrow> string + real list"
  jsRegExp :: regExpEngine

text \<open>
  The state of a \<^verbatim>\<open>SearchEngine\<close> with its \<^verbatim>\<open>EmbeddingService\<close>. \<open>documentIndex\<close> is the
  \<^verbatim>\<open>Map\<close> from path to record, in insertion order. \<open>initialized\<close> is the flag of the
  service. Two logs record what the engine does to the outside: \<open>warnings\<close> the calls of
  \<^verbatim>\<open>console.warn\<close> (the document identifier and the error), \<open>pipelineCalls\<close> the texts
  handed to the embedding model.
\<close>

record engine =
  documentIndex :: "(string \<times> ParsedDoc) list"
  indexed :: bool
  embeddingsGenerated :: bool
  initialized :: bool
  warnings :: "(string \<times> error) list"
  pipelineCalls :: "string list"

text \<open>The engine after its constructor.\<close>

definition newEngine :: engine where
  "newEngine = \<lparr>documentIndex = [], indexed = False, embeddingsGenerated = False,
     initialized = False, warnings = [], pipelineCalls = []\<rparr>"

text \<open>\<^verbatim>\<open>Map.set\<close>: the value of an existing key is replaced where it stands, a new key goes
  to the end. \<^verbatim>\<open>Map.get\<close> is \<^const>\<open>map_of\<close>, \<^verbatim>\<open>Map.values()\<close> is \<open>map snd\<close>.\<close>

fun mapSet :: "'k \<Rightarrow> 'v \<Rightarrow> ('k \<times> 'v) list \<Rightarrow> ('k \<times> 'v) list" where
  "mapSet k v [] = [(k, v)]"
| "mapSet k v ((k', v') # kvs) = (if k' = k then (k, v) # kvs else (k', v') # mapSet k v kvs)"

subsection \<open>Rebuilding the store (\<^verbatim>\<open>indexDocuments\<close>)\<close>

definition indexOne :: "collaborators \<Rightarrow> string \<Rightarrow> engine \<Rightarrow> engine" where
  "indexOne env docPath s =
     (case readDoc env docPath of
        Inl e \<Rightarrow> s\<lparr>warnings := warnings s @ [(docPath, e)]\<rparr>
      | Inr contents \<Rightarrow>
          (case parseMarkdown env contents docPath of
             Inl e \<Rightarrow> s\<lparr>warnings := warnings s @ [(docPath, e)]\<rparr>
           | Inr parsedDoc \<Rightarrow>
               s\<lparr>documentIndex := mapSet (path parsedDoc) parsedDoc (documentIndex s)\<rparr>))"

fun indexLoop :: "collaborators \<Rightarrow> string list \<Rightarrow> engine \<Rightarrow> engine" where
  "indexLoop env [] s = s"
| "indexLoop env (docPath # rest) s = indexLoop env rest (indexOne env docPath s)"

definition indexDocuments :: "collaborators \<Rightarrow> engine \<Rightarrow> (error + unit) \<times> engine" where
  "indexDocuments env s =
     (let s1 = s\<lparr>documentIndex := []\<rparr>
      in case getAllDocs env of
           Inl e \<Rightarrow> (Inl e, s1)
         | Inr allDocs \<Rightarrow> (Inr (), (indexLoop env allDocs s1)\<lparr>indexed := True\<rparr>))"

subsection \<open>The embedding service (\<^verbatim>\<open>initialize\<close>, \<^verbatim>\<open>generateEmbedding\<close>)\<close>

definition initialize :: "collaborators \<Rightarrow> engine \<Rightarrow> (error + unit) \<times> engine" where
  "initialize env s =
     (if initialized s then (Inr (), s)
      else
        (case loadPipeline env of
           Some m \<Rightarrow> (Inl (Error (''Embedding initialization failed: '' @ m)), s)
         | None \<Rightarrow> (Inr (), s\<lparr>initialized := True\<rparr>)))"

definition generateEmbedding ::
  "collaborators \<Rightarrow> string \<Rightarrow> engine \<Rightarrow> (error + real list) \<times> engine" where
  "generateEmbedding env text s =
     (case (if initialized s then (Inr (), s) else initialize env s) of
        (Inl e, s1) \<Rightarrow> (Inl e, s1)
      | (Inr u, s1) \<Rightarrow>
          (let truncated = slice text 0 2000;
               s2 = s1\<lparr>pipelineCalls := pipelineCalls s1 @ [truncated]\<rparr>
           in case runPipeline env truncated of
                Inl m \<Rightarrow> (Inl (Error (''Embedding generation failed: '' @ m)), s2)
              | Inr v \<Rightarrow> (Inr v, s2)))"

subsection \<open>The embedding pass (\<^verbatim>\<open>generateEmbeddings\<close>)\<close>

text \<open>The text of a record: title, description (or the empty string), the first 1000
  characters of the body.\<close>

definition embeddingText :: "ParsedDoc \<Rightarrow> string" where
  "embeddingText d =
     title (metadata d) @ ''. '' @
     (case description (metadata d) of None \<Rightarrow> [] | Some ds \<Rightarrow> ds) @ ''. '' @
     slice (plainText d) 0 1000"

text \<open>
  The loop over \<^verbatim>\<open>documentIndex.values()\<close>. It returns the error that stopped it, if any,
  the entries of the index after it (a record reached before the stop carries its new
  embedding, the others are as they were) and the state of the service.
\<close>

fun embedLoop ::
  "collaborators \<Rightarrow> (string \<times> ParsedDoc) list \<Rightarrow> engine \<Rightarrow>
   error option \<times> (string \<times> ParsedDoc) list \<times> engine" where
  "embedLoop env [] s = (None, [], s)"
| "embedLoop env ((k, d) # rest) s =
     (case generateEmbedding env (embeddingText d) s of
        (Inl e, s1) \<Rightarrow> (Some e, (k, d) # rest, s1)
      | (Inr v, s1) \<Rightarrow>
          (case embedLoop env rest s1 of
             (r, rest', s2) \<Rightarrow> (r, (k, d\<lparr>embedding := Some v\<rparr>) # rest', s2)))"

definition generateEmbeddings :: "collaborators \<Rightarrow> engine \<Rightarrow> (error + unit) \<times> engine" where
  "generateEmbeddings env s =
     (if embeddingsGenerated s then (Inr (), s)
      else
        (case initialize env s of
           (Inl e, s1) \<Rightarrow> (Inl e, s1)
         | (Inr u, s1) \<Rightarrow>
             (case embedLoop env (documentIndex s1) s1 of
                (Some e, entries, s2) \<Rightarrow> (Inl e, s2\<lparr>documentIndex := entries\<rparr>)
              | (None, entries, s2) \<Rightarrow>
                  (Inr (), s2\<lparr>documentIndex := entries, embeddingsGenerated := True\<rparr>))))"

subsection \<open>Searching (\<^verbatim>\<open>keywordSearch\<close>, \<^verbatim>\<open>semanticSearch\<close>, \<^verbatim>\<open>search\<close>)\<close>

text \<open>\<^verbatim>\<open>Math.min(options?.limit || defaultLimit, maxLimit)\<close>: a limit that is absent or
  \<open>0\<close> gives way to the default.\<close>

definition limitOf :: "SearchOptions \<Rightarrow> int" where
  "limitOf options =
     min (case limit options of
            None \<Rightarrow> defaultLimit
          | Some l \<Rightarrow> if l = 0 then defaultLimit else l)
         maxLimit"

definition sectionFilterOf :: "SearchOptions \<Rightarrow> string option" where
  "sectionFilterOf options = map_option toLowerCase (sectionOpt options)"

text \<open>A record is skipped when \<^verbatim>\<open>sectionFilter && doc.section.toLowerCase() !== sectionFilter\<close>,
  where an absent or empty filter is falsy.\<close>

definition passesSection :: "string option \<Rightarrow> ParsedDoc \<Rightarrow> bool" where
  "passesSection sectionFilter d =
     (case sectionFilter of
        None \<Rightarrow> True
      | Some f \<Rightarrow> f = [] \<or> toLowerCase (sectionName d) = f)"

text \<open>The array \<^verbatim>\<open>results\<close> of \<^verbatim>\<open>keywordSearch\<close> after its loop, before it is sorted.\<close>

fun keywordResults ::
  "regExpEngine \<Rightarrow> real \<Rightarrow> string option \<Rightarrow> string list \<Rightarrow> ParsedDoc list \<Rightarrow>
   error + SearchResult list" where
  "keywordResults engine minScore' sectionFilter queryTerms [] = Inr []"
| "keywordResults engine minScore' sectionFilter queryTerms (d # ds) =
     (if \<not> passesSection sectionFilter d
      then keywordResults engine minScore' sectionFilter queryTerms ds
      else
        (case scoreDocument engine d queryTerms of
           Inl e \<Rightarrow> Inl e
         | Inr sc \<Rightarrow>
             (case keywordResults engine minScore' sectionFilter queryTerms ds of
                Inl e \<Rightarrow> Inl e
              | Inr results \<Rightarrow>
                  Inr (if minScore' \<le> sc
                       then \<lparr>doc = d, score = sc, snippet = generateSnippet d queryTerms\<rparr> # results
                       else results))))"

text \<open>\<^verbatim>\<open>results.sort((a, b) => b.score - a.score)\<close>: the sort of an array is stable, and so
  is \<^const>\<open>sort_key\<close>.\<close>

definition sortByScore :: "SearchResult list \<Rightarrow> SearchResult list" where
  "sortByScore results = sort_key (\<lambda>r. - score r) results"

text \<open>\<^verbatim>\<open>options?.minScore ?? CONFIG.search.minScore\<close>\<close>

definition minScoreOf :: "SearchOptions \<Rightarrow> real" where
  "minScoreOf options = (case minScore options of None \<Rightarrow> configMinScore | Some m \<Rightarrow> m)"

definition keywordSearch ::
  "collaborators \<Rightarrow> string \<Rightarrow> SearchOptions \<Rightarrow> engine \<Rightarrow> error + SearchResult list" where
  "keywordSearch env query options s =
     (let queryTerms = queryTermsOf query
      in case keywordResults (jsRegExp env) (minScoreOf options) (sectionFilterOf options)
                queryTerms (map snd (documentIndex s)) of
           Inl e \<Rightarrow> Inl e
         | Inr results \<Rightarrow> Inr (slice (sortByScore results) 0 (limitOf options)))"

text \<open>The records \<^verbatim>\<open>docs\<close> of \<^verbatim>\<open>semanticSearch\<close>: those of the section that carry an
  embedding.\<close>

definition candidates :: "string option \<Rightarrow> engine \<Rightarrow> ParsedDoc list" where
  "candidates sectionFilter s =
     filter (\<lambda>d. passesSection sectionFilter d \<and> embedding d \<noteq> None) (map snd (documentIndex s))"

text \<open>\<^verbatim>\<open>cosineSimilarity(queryEmbedding, doc.embedding!)\<close>. The loop of \<^verbatim>\<open>semanticSearch\<close>
  runs over records that carry an embedding; on a record without one the call would read
  the length of \<^verbatim>\<open>undefined\<close>.\<close>

definition docSimilarity :: "real list \<Rightarrow> ParsedDoc \<Rightarrow> error + real" where
  "docSimilarity queryEmbedding d =
     (case embedding d of
        None \<Rightarrow> Inl (Error ''Cannot read properties of undefined'')
      | Some v \<Rightarrow> cosineSimilarity queryEmbedding v)"

text \<open>The array \<^verbatim>\<open>results\<close> of \<^verbatim>\<open>semanticSearch\<close> after its loop, before it is sorted.\<close>

fun hybridResults ::
  "regExpEngine \<Rightarrow> real list \<Rightarrow> string list \<Rightarrow> ParsedDoc list \<Rightarrow>
   error + SearchResult list" where
  "hybridResults engine queryEmbedding queryTerms [] = Inr []"
| "hybridResults engine queryEmbedding queryTerms (d # ds) =
     (case scoreDocument engine d queryTerms of
        Inl e \<Rightarrow> Inl e
      | Inr sc \<Rightarrow>
          (case docSimilarity queryEmbedding d of
             Inl e \<Rightarrow> Inl e
           | Inr semanticScore \<Rightarrow>
               (let keywordScore = sc / 100;
                    hybridScore = hybridKeywordWeight * keywordScore
                                  + hybridSemanticWeight * semanticScore
                in case hybridResults engine queryEmbedding queryTerms ds of
                     Inl e \<Rightarrow> Inl e
                   | Inr results \<Rightarrow>
                       Inr (if semanticMinSimilarity \<le> semanticScore
                            then \<lparr>doc = d, score = hybridScore,
                                   snippet = generateSnippet d queryTerms\<rparr> # results
                            else results))))"

definition semanticSearch ::
  "collaborators \<Rightarrow> string \<Rightarrow> SearchOptions \<Rightarrow> engine \<Rightarrow> (error + SearchResult list) \<times> engine" where
  "semanticSearch env query options s =
     (case (if embeddingsGenerated s then (Inr (), s) else generateEmbeddings env s) of
        (Inl e, s1) \<Rightarrow> (Inl e, s1)
      | (Inr u, s1) \<Rightarrow>
          (case generateEmbedding env query s1 of
             (Inl e, s2) \<Rightarrow> (Inl e, s2)
           | (Inr queryEmbedding, s2) \<Rightarrow>
               (case hybridResults (jsRegExp env) queryEmbedding (queryTermsOf query)
                       (candidates (sectionFilterOf options) s2) of
                  Inl e \<Rightarrow> (Inl e, s2)
                | Inr results \<Rightarrow> (Inr (slice (sortByScore results) 0 (limitOf options)), s2))))"

text \<open>\<^verbatim>\<open>options?.useSemanticSearch ?? CONFIG.search.semanticSearchEnabled\<close>\<close>

definition useSemanticOf :: "SearchOptions \<Rightarrow> bool" where
  "useSemanticOf options =
     (case useSemanticSearch options of None \<Rightarrow> semanticSearchEnabled | Some b \<Rightarrow> b)"

definition search ::
  "collaborators \<Rightarrow> string \<Rightarrow> SearchOptions \<Rightarrow> engine \<Rightarrow> (error + SearchResult list) \<times> engine" where
  "search env query options s =
     (case (if indexed s then (Inr (), s) else indexDocuments env s) of
        (Inl e, s1) \<Rightarrow> (Inl e, s1)
      | (Inr u, s1) \<Rightarrow>
          if trim query = [] then (Inr [], s1)
          else if useSemanticOf options then semanticSearch env query options s1
          else (keywordSearch env query options s1, s1))"

subsection \<open>Lookup and sections (\<^verbatim>\<open>getDocByPath\<close>, \<^verbatim>\<open>getSections\<close>)\<close>

text \<open>\<^verbatim>\<open>path.replace\<close> with the pattern that matches the extension at the end: the extension is removed where the path ends with it,
  once.\<close>

definition stripMd :: "string \<Rightarrow> string" where
  "stripMd p = (if suffix ''.md'' p then take (length p - 3) p else p)"

text \<open>\<open>None\<close> is the \<^verbatim>\<open>null\<close> of the source.\<close>

definition getDocByPath ::
  "collaborators \<Rightarrow> string \<Rightarrow> engine \<Rightarrow> (error + ParsedDoc option) \<times> engine" where
  "getDocByPath env p s =
     (case (if indexed s then (Inr (), s) else indexDocuments env s) of
        (Inl e, s1) \<Rightarrow> (Inl e, s1)
      | (Inr u, s1) \<Rightarrow> (Inr (map_of (documentIndex s1) (stripMd p)), s1))"

text \<open>\<^verbatim>\<open>getSections\<close> takes no collaborator and awaits nothing; it is given the state and
  returns it with the list.\<close>

definition getSections :: "engine \<Rightarrow> string list \<times> engine" where
  "getSections s = (sections, s)"

section \<open>Notions used in the statements\<close>

subsection \<open>What a rebuild is expected to produce\<close>

text \<open>Fetching and parsing one document of the corpus.\<close>

definition fetchAndParse :: "collaborators \<Rightarrow> string \<Rightarrow> error + ParsedDoc" where
  "fetchAndParse env docPath =
     (case readDoc env docPath of
        Inl e \<Rightarrow> Inl e
      | Inr contents \<Rightarrow> parseMarkdown env contents docPath)"

text \<open>The records of the identifiers that can be fetched and parsed, and the identifiers
  that cannot, each with its error, both in the order of the listing.\<close>

fun parsedDocs :: "collaborators \<Rightarrow> string list \<Rightarrow> ParsedDoc list" where
  "parsedDocs env [] = []"
| "parsedDocs env (docPath # rest) =
     (case fetchAndParse env docPath of
        Inl e \<Rightarrow> parsedDocs env rest
      | Inr d \<Rightarrow> d # parsedDocs env rest)"

fun failedDocs :: "collaborators \<Rightarrow> string list \<Rightarrow> (string \<times> error) list" where
  "failedDocs env [] = []"
| "failedDocs env (docPath # rest) =
     (case fetchAndParse env docPath of
        Inl e \<Rightarrow> (docPath, e) # failedDocs env rest
      | Inr d \<Rightarrow> failedDocs env rest)"

text \<open>Inserting records into an index one after the other, each under its path.\<close>

definition insertAll ::
  "(string \<times> ParsedDoc) list \<Rightarrow> ParsedDoc list \<Rightarrow> (string \<times> ParsedDoc) list" where
  "insertAll ix ds = foldl (\<lambda>ix' d. mapSet (path d) d ix') ix ds"

subsection \<open>What an embedding pass is expected to produce\<close>

text \<open>The text of a record as the embedding model receives it.\<close>

definition pipelineText :: "ParsedDoc \<Rightarrow> string" where
  "pipelineText d = slice (embeddingText d) 0 2000"

text \<open>The number of entries at the head of the index on which the model succeeds.\<close>

fun embeddedPrefix :: "collaborators \<Rightarrow> (string \<times> ParsedDoc) list \<Rightarrow> nat" where
  "embeddedPrefix env [] = 0"
| "embeddedPrefix env ((k, d) # rest) =
     (case runPipeline env (pipelineText d) of
        Inl m \<Rightarrow> 0
      | Inr v \<Rightarrow> Suc (embeddedPrefix env rest))"

text \<open>An entry with the embedding the model computes for it, replacing any it had.\<close>

definition attach :: "collaborators \<Rightarrow> string \<times> ParsedDoc \<Rightarrow> string \<times> ParsedDoc" where
  "attach env kd =
     (case runPipeline env (pipelineText (snd kd)) of
        Inl m \<Rightarrow> kd
      | Inr v \<Rightarrow> (fst kd, (snd kd)\<lparr>embedding := Some v\<rparr>))"

text \<open>The error of the first entry on which the model fails, if there is one.\<close>

definition passError :: "collaborators \<Rightarrow> (string \<times> ParsedDoc) list \<Rightarrow> error option" where
  "passError env entries =
     (case drop (embeddedPrefix env entries) entries of
        [] \<Rightarrow> None
      | (k, d) # rest \<Rightarrow>
          (case runPipeline env (pipelineText d) of
             Inl m \<Rightarrow> Some (Error (''Embedding generation failed: '' @ m))
           | Inr v \<Rightarrow> None))"

text \<open>
  The state after a pass that got past the initialization of the service: the entries
  before the first failure carry their new embeddings, the others are untouched; the
  model has been called on every entry up to and including the failing one; the flag of
  completion is set when no entry failed.
\<close>

definition passState :: "collaborators \<Rightarrow> engine \<Rightarrow> engine" where
  "passState env s =
     (let entries = documentIndex s; n = embeddedPrefix env entries
      in s\<lparr>documentIndex := map (attach env) (take n entries) @ drop n entries,
           embeddingsGenerated := (passError env entries = None),
           initialized := True,
           pipelineCalls := pipelineCalls s
             @ map (\<lambda>kd. pipelineText (snd kd)) (take (Suc n) entries)\<rparr>)"

subsection \<open>Qualifying records\<close>

text \<open>The cosine similarity of the query embedding and the embedding of a record: the dot
  product divided by the product of the magnitudes, \<open>0\<close> when a magnitude is \<open>0\<close>. There is
  none when the record has no embedding or the two vectors differ in length.\<close>

definition similarityTo :: "real list \<Rightarrow> ParsedDoc \<Rightarrow> real option" where
  "similarityTo queryEmbedding d =
     (case embedding d of
        None \<Rightarrow> None
      | Some v \<Rightarrow>
          if length v \<noteq> length queryEmbedding then None
          else Some (if magnitude queryEmbedding = 0 \<or> magnitude v = 0 then 0
                     else dot queryEmbedding v / (magnitude queryEmbedding * magnitude v)))"

text \<open>A record reaches the floor of hybrid search when that similarity is at least \<open>0.3\<close>.\<close>

definition reachesFloor :: "real list \<Rightarrow> ParsedDoc \<Rightarrow> bool" where
  "reachesFloor queryEmbedding d =
     (case similarityTo queryEmbedding d of
        None \<Rightarrow> False
      | Some sem \<Rightarrow> 0.3 \<le> sem)"

text \<open>A record reaches the minimum of keyword search when its keyword score is at least
  the minimum asked for, \<open>0.1\<close> when none is asked for.\<close>

definition reachesMinScore ::
  "collaborators \<Rightarrow> SearchOptions \<Rightarrow> string list \<Rightarrow> ParsedDoc \<Rightarrow> bool" where
  "reachesMinScore env options queryTerms d =
     (case scoreDocument (jsRegExp env) d queryTerms of
        Inl e \<Rightarrow> False
      | Inr sc \<Rightarrow> (case minScore options of None \<Rightarrow> 0.1 | Some m \<Rightarrow> m) \<le> sc)"

text \<open>A record is in the section asked for, letter case ignored; every record is when no
  section, or the empty one, is asked for.\<close>

definition inSection :: "SearchOptions \<Rightarrow> ParsedDoc \<Rightarrow> bool" where
  "inSection options d =
     (case sectionOpt options of
        None \<Rightarrow> True
      | Some sec \<Rightarrow> sec = [] \<or> toLowerCase (sectionName d) = toLowerCase sec)"

text \<open>The mode of a search is hybrid unless the options say otherwise.\<close>

definition hybridMode :: "SearchOptions \<Rightarrow> bool" where
  "hybridMode options = (case useSemanticSearch options of None \<Rightarrow> True | Some b \<Rightarrow> b)"

text \<open>The candidates of a hybrid search: the records of the section that carry an
  embedding, in the order of the store.\<close>

definition hybridCandidates :: "SearchOptions \<Rightarrow> engine \<Rightarrow> ParsedDoc list" where
  "hybridCandidates options s =
     filter (\<lambda>d. inSection options d \<and> embedding d \<noteq> None) (map snd (documentIndex s))"

text \<open>The embedding of the query, as the model computes it.\<close>

definition queryEmbeddingOf :: "collaborators \<Rightarrow> string \<Rightarrow> real list" where
  "queryEmbeddingOf env query =
     (case runPipeline env (slice query 0 2000) of Inl m \<Rightarrow> [] | Inr v \<Rightarrow> v)"

text \<open>The qualifying records of a search, in the order of the store: in hybrid mode the
  records of the section whose embedding reaches the floor, in keyword mode the records
  of the section that reach the minimum score.\<close>

definition qualifying ::
  "collaborators \<Rightarrow> string \<Rightarrow> SearchOptions \<Rightarrow> engine \<Rightarrow> ParsedDoc list" where
  "qualifying env query options s =
     (if hybridMode options
      then filter (\<lambda>d. inSection options d \<and> reachesFloor (queryEmbeddingOf env query) d)
             (map snd (documentIndex s))
      else filter (\<lambda>d. inSection options d \<and> reachesMinScore env options (queryTermsOf query) d)
             (map snd (documentIndex s)))"

subsection \<open>The store a lookup reads\<close>

text \<open>A lookup on an engine that is not built rebuilds the store first.\<close>

definition storeAfterLookup :: "collaborators \<Rightarrow> engine \<Rightarrow> engine" where
  "storeAfterLookup env s = (if indexed s then s else snd (indexDocuments env s))"

subsection \<open>Occurrences of a term and the window around one\<close>

text \<open>The term \<open>t\<close> occurs in the body at position \<open>i\<close>, letter case ignored.\<close>

definition occursAt :: "string \<Rightarrow> string \<Rightarrow> nat \<Rightarrow> bool" where
  "occursAt body t i = (i \<le> length body \<and> prefix (toLowerCase t) (toLowerCase (drop i body)))"

definition noOccurrence :: "string \<Rightarrow> string list \<Rightarrow> bool" where
  "noOccurrence body terms = (\<forall>t \<in> set terms. \<forall>i \<le> length body. \<not> occursAt body t i)"

text \<open>\<open>i\<close> is the earliest position at which any of the terms occurs.\<close>

definition earliest :: "string \<Rightarrow> string list \<Rightarrow> nat \<Rightarrow> bool" where
  "earliest body terms i =
     ((\<exists>t \<in> set terms. occursAt body t i) \<and> (\<forall>j < i. \<forall>t \<in> set terms. \<not> occursAt body t j))"

text \<open>The window around a match of length \<open>n\<close> at position \<open>i\<close>: 75 characters on each side,
  within the bounds of the body, with an ellipsis where the window stops short of an end
  of the body.\<close>

definition window :: "string \<Rightarrow> nat \<Rightarrow> nat \<Rightarrow> string" where
  "window body i n =
     (let start = i - 75; stop = min (length body) (i + n + 75)
      in (if 0 < start then ''...'' else []) @ take (stop - start) (drop start body)
         @ (if stop < length body then ''...'' else []))"

text \<open>The snippet of a record in whose body no term occurs.\<close>

definition fallbackSnippet :: "ParsedDoc \<Rightarrow> string" where
  "fallbackSnippet d =
     (case description (metadata d) of
        None \<Rightarrow> take 150 (plainText d) @ ''...''
      | Some ds \<Rightarrow> if ds = [] then take 150 (plainText d) @ ''...'' else ds)"

text \<open>What the loop of \<open>findFirstMatch\<close> has found when it has seen the terms \<open>seen\<close>:
  nothing, or the earliest position of any of them and the first of them that occurs
  there.\<close>

definition foundState :: "string \<Rightarrow> string list \<Rightarrow> int \<times> string \<Rightarrow> bool" where
  "foundState body seen found =
     (case found of
        (firstMatchIndex, matchedTerm) \<Rightarrow>
          (firstMatchIndex = -1 \<and> (\<forall>t \<in> set seen. \<forall>j. \<not> occursAt body t j)) \<or>
          (\<exists>i. firstMatchIndex = int i \<and> earliest body seen i \<and>
               find (\<lambda>t. occursAt body t i) seen = Some matchedTerm))"

subsection \<open>The keyword score of the specification\<close>

text \<open>The number of occurrences of the term \<open>t\<close> in the body, letter case ignored, counted
  from left to right without overlap.\<close>

function countOccurrences :: "string \<Rightarrow> string \<Rightarrow> nat" where
  "countOccurrences t body =
     (if t = [] \<or> body = [] then 0
      else if prefix (toLowerCase t) (toLowerCase body)
           then 1 + countOccurrences t (drop (length t) body)
           else countOccurrences t (tl body))"
  by pat_completeness auto
termination
  by (relation "measure (\<lambda>(t, body). length body)") auto

declare countOccurrences.simps [simp del]

text \<open>The score of one term and of a list of terms, in the words of the specification:
  10 for the title, 5 for the path, 3 for the description, and half a point for each
  occurrence in the body.\<close>

definition claimedTermScore :: "ParsedDoc \<Rightarrow> string \<Rightarrow> real" where
  "claimedTermScore d t =
     (if strIncludes (toLowerCase (title (metadata d))) t then 10 else 0)
     + (if strIncludes (toLowerCase (path d)) t then 5 else 0)
     + (if (case description (metadata d) of
              None \<Rightarrow> False
            | Some ds \<Rightarrow> strIncludes (toLowerCase ds) t) then 3 else 0)
     + 0.5 * real (countOccurrences t (plainText d))"

definition claimedScore :: "ParsedDoc \<Rightarrow> string list \<Rightarrow> real" where
  "claimedScore d queryTerms = sum_list (map (claimedTermScore d) queryTerms)"

text \<open>A term without any syntax character of regular expressions.\<close>

definition plainTerm :: "string \<Rightarrow> bool" where
  "plainTerm t = (t \<noteq> [] \<and> (\<forall>c \<in> set t. c \<notin> set (CHR 0x5C # ''*+?[]{}^$|().'')))"

section \<open>Example data\<close>

definition docA :: ParsedDoc where
  "docA = \<lparr>path = ''learn/a'', sectionName = ''learn'',
     metadata = \<lparr>title = ''State'', description = None\<rparr>, content = ''# State'',
     plainText = ''use state'', embedding = None\<rparr>"

definition docB :: ParsedDoc where
  "docB = \<lparr>path = ''learn/b'', sectionName = ''learn'',
     metadata = \<lparr>title = ''Routing'', description = Some ''Routes''\<rparr>, content = ''# Routing'',
     plainText = ''no state here'', embedding = None\<rparr>"

text \<open>The runtime of the examples on patterns outside the fragment. It knows the pattern
  \<^verbatim>\<open>state?\<close>, whose matches (\<^verbatim>\<open>stat\<close> with or without a following \<^verbatim>\<open>e\<close>) are as many as the
  occurrences of \<^verbatim>\<open>stat\<close>; on the other patterns, which no example uses, it lets the
  constructor throw.\<close>

definition exampleRuntime :: regExpEngine where
  "exampleRuntime pattern =
     (if pattern = ''state?''
      then Some (countMatches [Lit CHR ''s'', Lit CHR ''t'', Lit CHR ''a'', Lit CHR ''t''] 0)
      else None)"

text \<open>A corpus of three documents, the second of which cannot be read; an embedding model
  that maps a text starting with \<open>s\<close> or \<open>S\<close> to one axis and every other text to the
  other axis.\<close>

definition envAB :: collaborators where
  "envAB = \<lparr>getAllDocs = Inr [''learn/a.md'', ''learn/bad.md'', ''learn/b.md''],
     readDoc = (\<lambda>p. if p = ''learn/bad.md'' then Inl (Error ''Failed to read document'')
                     else Inr p),
     parseMarkdown = (\<lambda>c p. if p = ''learn/a.md'' then Inr docA else Inr docB),
     loadPipeline = None,
     runPipeline = (\<lambda>t. if prefix ''s'' (toLowerCase t) then Inr [1, 0] else Inr [0, 1]),
     jsRegExp = exampleRuntime\<rparr>"

text \<open>The same with a model that fails on the text of \<open>docB\<close>, with a model that maps
  every text to the second axis, and with a model that maps every text to the first.\<close>

definition envFail :: collaborators where
  "envFail = envAB\<lparr>runPipeline :=
     (\<lambda>t. if t = ''Routing. Routes. no state here'' then Inl ''out of memory''
           else Inr [1, 0])\<rparr>"

definition envOther :: collaborators where
  "envOther = envAB\<lparr>runPipeline := (\<lambda>t. Inr [0, 1])\<rparr>"

definition envSame :: collaborators where
  "envSame = envAB\<lparr>runPipeline := (\<lambda>t. Inr [1, 0])\<rparr>"

text \<open>An engine whose store holds a record that is not in the corpus of \<open>envAB\<close>, and the
  engine that a rebuild from that corpus yields.\<close>

definition storeOld :: engine where
  "storeOld = newEngine\<lparr>documentIndex := [(''blog/old'', docB\<lparr>path := ''blog/old''\<rparr>)],
     indexed := True\<rparr>"

definition storeAB :: engine where
  "storeAB = \<lparr>documentIndex = [(''learn/a'', docA), (''learn/b'', docB)], indexed = True,
     embeddingsGenerated = False, initialized = False,
     warnings = [(''learn/bad.md'', Error ''Failed to read document'')],
     pipelineCalls = []\<rparr>"



text \<open>The records and the engine after an embedding pass with the model of \<open>envAB\<close>.\<close>

definition docAe :: ParsedDoc where
  "docAe = docA\<lparr>embedding := Some [1, 0]\<rparr>"

definition docBe :: ParsedDoc where
  "docBe = docB\<lparr>embedding := Some [0, 1]\<rparr>"

definition storeEmb :: engine where
  "storeEmb = \<lparr>documentIndex = [(''learn/a'', docAe), (''learn/b'', docBe)], indexed = True,
     embeddingsGenerated = True, initialized = True,
     warnings = [(''learn/bad.md'', Error ''Failed to read document'')],
     pipelineCalls = [''State. . use state'', ''Routing. Routes. no state here'']\<rparr>"

text \<open>Options that select keyword search.\<close>

definition keywordOptions :: SearchOptions where
  "keywordOptions = noOptions\<lparr>useSemanticSearch := Some False\<rparr>"

text \<open>A store with a record whose path ends with the extension, as the parser yields
  for a file named \<^verbatim>\<open>a.md.md\<close>.\<close>

definition docMd :: ParsedDoc where
  "docMd = docA\<lparr>path := ''learn/a.md''\<rparr>"

definition storeMd :: engine where
  "storeMd = newEngine\<lparr>documentIndex := [(''learn/a.md'', docMd)], indexed := True\<rparr>"

text \<open>A record whose body starts with a space, and a record whose description is the
  empty string.\<close>

definition docLead :: ParsedDoc where
  "docLead = docA\<lparr>plainText := '' use state''\<rparr>"

definition docEmptyDescription :: ParsedDoc where
  "docEmptyDescription = docA\<lparr>metadata := \<lparr>title = ''State'', description = Some []\<rparr>\<rparr>"

section \<open>Properties\<close>

subsection \<open>Cosine similarity\<close>

lemma cosineLoop_sums:
  "length a = length b \<Longrightarrow>
   cosineLoop a b (d, na, nb) =
     (d + (\<Sum>i < length a. a ! i * b ! i),
      na + (\<Sum>i < length a. a ! i * a ! i),
      nb + (\<Sum>i < length b. b ! i * b ! i))"
proof (induction a b arbitrary: d na nb rule: list_induct2)
  case Nil
  show ?case by simp
next
  case (Cons x xs y ys)
  show ?case
    by (simp add: Cons.IH Cons.hyps sum.lessThan_Suc_shift add.assoc del: sum.lessThan_Suc)
qed

text \<open>
  Claim C4. On two vectors of the same length \<open>cosineSimilarity\<close> returns their dot product
  divided by the product of their magnitudes, and \<open>0\<close> when one of the two magnitudes is
  \<open>0\<close>; on two vectors of different lengths it throws, whatever their contents, and
  returns no score.
\<close>

theorem cosineSimilarity_formula:
  "cosineSimilarity a b =
     (if length a \<noteq> length b then Inl (Error ''Vectors must have same length'')
      else if magnitude a = 0 \<or> magnitude b = 0 then Inr 0
      else Inr (dot a b / (magnitude a * magnitude b)))"
proof (cases "length a = length b")
  case False
  then show ?thesis by (simp add: cosineSimilarity_def)
next
  case True
  have loop: "cosineLoop a b (0, 0, 0) =
      (dot a b, (\<Sum>i < length a. (a ! i)\<^sup>2), (\<Sum>i < length b. (b ! i)\<^sup>2))"
    using cosineLoop_sums [OF True, of 0 0 0] True
    by (simp add: dot_def power2_eq_square)
  show ?thesis
    using True by (simp add: cosineSimilarity_def loop magnitude_def Let_def)
qed

theorem cosineSimilarity_formula_witness:
  "cosineSimilarity [1, 0] [1, 1] = Inr (1 / sqrt 2) \<and>
   cosineSimilarity [0, 0] [1, 1] = Inr 0 \<and>
   cosineSimilarity [1] [1, 1] = Inl (Error ''Vectors must have same length'')"
  using cosineSimilarity_formula [of "[1, 0]" "[1, 1]"]
    cosineSimilarity_formula [of "[0, 0]" "[1, 1]"]
    cosineSimilarity_formula [of "[1]" "[1, 1]"]
  by (simp add: magnitude_def dot_def lessThan_Suc numeral_2_eq_2)

subsection \<open>Sections\<close>

text \<open>
  Claim C10. \<open>getSections\<close> returns the configured list \<open>learn\<close>, \<open>reference\<close>, \<open>blog\<close>,
  \<open>community\<close>, in that order, in every state of the engine: a new engine, an engine whose
  store is empty, an engine after a rebuild with any corpus. It leaves the state as it is,
  so it starts no indexing.
\<close>

theorem getSections_fixed:
  "getSections s = ([''learn'', ''reference'', ''blog'', ''community''], s) \<and>
   fst (getSections newEngine) = [''learn'', ''reference'', ''blog'', ''community''] \<and>
   fst (getSections (snd (indexDocuments env s))) = fst (getSections s)"
  by (simp add: getSections_def sections_def)

subsection \<open>Rebuilding the store\<close>

lemma indexLoop_state:
  "indexLoop env ids s =
     s\<lparr>documentIndex := insertAll (documentIndex s) (parsedDocs env ids),
       warnings := warnings s @ failedDocs env ids\<rparr>"
proof (induction ids arbitrary: s)
  case Nil
  show ?case by (simp add: insertAll_def)
next
  case (Cons docPath rest)
  show ?case
    by (simp add: Cons.IH indexOne_def fetchAndParse_def insertAll_def split: sum.splits)
qed

lemma map_of_mapSet: "map_of (mapSet k v kvs) = (map_of kvs)(k \<mapsto> v)"
  by (induction kvs) (auto simp: fun_eq_iff)

lemma keys_mapSet: "fst ` set (mapSet k v kvs) = insert k (fst ` set kvs)"
proof (induction kvs)
  case Nil
  show ?case by simp
next
  case (Cons kv kvs)
  obtain k' v' where kv: "kv = (k', v')" by (cases kv)
  show ?case
  proof (cases "k' = k")
    case True
    then show ?thesis by (simp add: kv insert_absorb2)
  next
    case False
    then show ?thesis using Cons.IH by (simp add: kv insert_commute)
  qed
qed

lemma distinct_mapSet: "distinct (map fst kvs) \<Longrightarrow> distinct (map fst (mapSet k v kvs))"
proof (induction kvs)
  case Nil
  show ?case by simp
next
  case (Cons kv kvs)
  obtain k' v' where kv: "kv = (k', v')" by (cases kv)
  show ?case
    using Cons by (auto simp: kv keys_mapSet)
qed

lemma keyed_mapSet:
  "\<forall>(k', d') \<in> set kvs. k' = path d' \<Longrightarrow>
   \<forall>(k', d') \<in> set (mapSet (path d) d kvs). k' = path d'"
proof (induction kvs)
  case Nil
  show ?case by simp
next
  case (Cons kv kvs)
  obtain k' v' where kv: "kv = (k', v')" by (cases kv)
  show ?case
    using Cons by (simp add: kv)
qed

lemma insertAll_keyed:
  "distinct (map fst ix) \<Longrightarrow> \<forall>(k, d) \<in> set ix. k = path d \<Longrightarrow>
   distinct (map fst (insertAll ix ds)) \<and> (\<forall>(k, d) \<in> set (insertAll ix ds). k = path d)"
proof (induction ds arbitrary: ix)
  case Nil
  then show ?case by (simp add: insertAll_def)
next
  case (Cons d ds)
  have "distinct (map fst (mapSet (path d) d ix))"
    using Cons.prems(1) by (rule distinct_mapSet)
  moreover have "\<forall>(k', d') \<in> set (mapSet (path d) d ix). k' = path d'"
    using Cons.prems(2) by (rule keyed_mapSet)
  ultimately have "distinct (map fst (insertAll (mapSet (path d) d ix) ds)) \<and>
      (\<forall>(k, d) \<in> set (insertAll (mapSet (path d) d ix) ds). k = path d)"
    by (rule Cons.IH)
  then show ?case by (simp add: insertAll_def)
qed

text \<open>
  Claim C6. When the corpus lists its documents, \<open>indexDocuments\<close> completes without
  throwing and leaves a store that holds nothing of the store before it: the index is
  built from the empty one by inserting, in the order of the listing, the record of every
  document that can be fetched and parsed, each under its path (so every key is the path
  of its record and no key occurs twice). A document that cannot be fetched or parsed is
  skipped and a warning with its identifier and its error is recorded; every document of
  the listing is either inserted or warned about.
\<close>

theorem indexDocuments_rebuild:
  assumes "getAllDocs env = Inr ids"
  shows "indexDocuments env s =
           (Inr (), s\<lparr>documentIndex := insertAll [] (parsedDocs env ids),
                      indexed := True,
                      warnings := warnings s @ failedDocs env ids\<rparr>) \<and>
         distinct (map fst (insertAll [] (parsedDocs env ids))) \<and>
         (\<forall>(k, d) \<in> set (insertAll [] (parsedDocs env ids)). k = path d) \<and>
         length (parsedDocs env ids) + length (failedDocs env ids) = length ids"
proof -
  have "length (parsedDocs env ids) + length (failedDocs env ids) = length ids"
    by (induction ids) (auto split: sum.splits)
  moreover have "indexDocuments env s =
           (Inr (), s\<lparr>documentIndex := insertAll [] (parsedDocs env ids),
                      indexed := True,
                      warnings := warnings s @ failedDocs env ids\<rparr>)"
    using assms by (simp add: indexDocuments_def indexLoop_state)
  ultimately show ?thesis
    using insertAll_keyed [of "[]" "parsedDocs env ids"] by simp
qed

theorem indexDocuments_rebuild_witness:
  "getAllDocs envAB = Inr [''learn/a.md'', ''learn/bad.md'', ''learn/b.md''] \<and>
   indexDocuments envAB storeOld = (Inr (), storeAB)"
  using indexDocuments_rebuild
    [of envAB "[''learn/a.md'', ''learn/bad.md'', ''learn/b.md'']" storeOld]
  by (simp add: envAB_def storeOld_def storeAB_def newEngine_def insertAll_def fetchAndParse_def
      docA_def docB_def)

subsection \<open>The embedding pass\<close>

lemma generateEmbedding_initialized:
  "initialized s \<Longrightarrow>
   generateEmbedding env text s =
     (case runPipeline env (slice text 0 2000) of
        Inl m \<Rightarrow> Inl (Error (''Embedding generation failed: '' @ m))
      | Inr v \<Rightarrow> Inr v,
      s\<lparr>pipelineCalls := pipelineCalls s @ [slice text 0 2000]\<rparr>)"
  by (simp add: generateEmbedding_def Let_def split: sum.splits)

lemma embedLoop_initialized:
  "initialized s \<Longrightarrow>
   embedLoop env entries s =
     (passError env entries,
      map (attach env) (take (embeddedPrefix env entries) entries)
        @ drop (embeddedPrefix env entries) entries,
      s\<lparr>pipelineCalls := pipelineCalls s
           @ map (\<lambda>kd. pipelineText (snd kd)) (take (Suc (embeddedPrefix env entries)) entries)\<rparr>)"
proof (induction entries arbitrary: s)
  case Nil
  then show ?case by (simp add: passError_def)
next
  case (Cons kd rest)
  obtain k d where kd: "kd = (k, d)" by (cases kd)
  show ?case
  proof (cases "runPipeline env (pipelineText d)")
    case (Inl m)
    then show ?thesis
      using Cons.prems
      by (simp add: kd generateEmbedding_initialized passError_def pipelineText_def)
  next
    case (Inr v)
    let ?s1 = "s\<lparr>pipelineCalls := pipelineCalls s @ [pipelineText d]\<rparr>"
    have "initialized ?s1" using Cons.prems by simp
    from Cons.IH [OF this] Inr Cons.prems show ?thesis
      by (simp add: kd generateEmbedding_initialized passError_def attach_def
          pipelineText_def)
  qed
qed


lemma embeddedPrefix_le: "embeddedPrefix env entries \<le> length entries"
  by (induction entries) (auto split: sum.splits)

lemma passError_None: "(passError env entries = None) = (embeddedPrefix env entries = length entries)"
proof (induction entries)
  case Nil
  show ?case by (simp add: passError_def)
next
  case (Cons kd rest)
  obtain k d where kd: "kd = (k, d)" by (cases kd)
  show ?case
    using Cons.IH by (cases "runPipeline env (pipelineText d)") (simp_all add: kd passError_def)
qed

text \<open>
  Claim C5, as the code has it. After a completed pass \<open>generateEmbeddings\<close> does nothing:
  it returns the state it was given, so no embedding changes and the model is not called.
  When the service cannot be initialized the pass throws and changes nothing. Otherwise
  the pass calls the model on the records of the store in order, on every record and not
  only on those without an embedding, and attaches the result to the record in place of
  any embedding it had. The first failure stops the pass and is thrown to the caller; the
  records before the failing one keep their new embeddings, the failing one and those
  after it are as they were, and the flag of completion stays unset. A pass without
  failure attaches an embedding to every record, with one call of the model for each.
\<close>

theorem generateEmbeddings_pass:
  "(embeddingsGenerated s \<longrightarrow> generateEmbeddings env s = (Inr (), s)) \<and>
   (\<not> embeddingsGenerated s \<and> \<not> initialized s \<and> loadPipeline env = Some m \<longrightarrow>
      generateEmbeddings env s = (Inl (Error (''Embedding initialization failed: '' @ m)), s)) \<and>
   (\<not> embeddingsGenerated s \<and> (initialized s \<or> loadPipeline env = None) \<longrightarrow>
      generateEmbeddings env s =
        (case passError env (documentIndex s) of None \<Rightarrow> Inr () | Some e \<Rightarrow> Inl e,
         passState env s)) \<and>
   (passError env (documentIndex s) = None \<longrightarrow>
      documentIndex (passState env s) = map (attach env) (documentIndex s) \<and>
      pipelineCalls (passState env s)
        = pipelineCalls s @ map (\<lambda>kd. pipelineText (snd kd)) (documentIndex s))"
proof (intro conjI impI)
  assume "embeddingsGenerated s"
  then show "generateEmbeddings env s = (Inr (), s)"
    by (simp add: generateEmbeddings_def)
next
  assume "\<not> embeddingsGenerated s \<and> \<not> initialized s \<and> loadPipeline env = Some m"
  then show "generateEmbeddings env s
      = (Inl (Error (''Embedding initialization failed: '' @ m)), s)"
    by (simp add: generateEmbeddings_def initialize_def)
next
  assume a: "\<not> embeddingsGenerated s \<and> (initialized s \<or> loadPipeline env = None)"
  let ?s1 = "s\<lparr>initialized := True\<rparr>"
  have init: "initialize env s = (Inr (), ?s1)"
    using a by (auto simp: initialize_def)
  have loop: "embedLoop env (documentIndex s) ?s1 =
     (passError env (documentIndex s),
      map (attach env) (take (embeddedPrefix env (documentIndex s)) (documentIndex s))
        @ drop (embeddedPrefix env (documentIndex s)) (documentIndex s),
      ?s1\<lparr>pipelineCalls := pipelineCalls s
           @ map (\<lambda>kd. pipelineText (snd kd))
               (take (Suc (embeddedPrefix env (documentIndex s))) (documentIndex s))\<rparr>)"
    using embedLoop_initialized [of ?s1 env "documentIndex s"] by simp
  show "generateEmbeddings env s =
        (case passError env (documentIndex s) of None \<Rightarrow> Inr () | Some e \<Rightarrow> Inl e,
         passState env s)"
    using a
    by (cases "passError env (documentIndex s)")
       (simp_all add: generateEmbeddings_def init loop passState_def Let_def)
next
  assume "passError env (documentIndex s) = None"
  then have n: "embeddedPrefix env (documentIndex s) = length (documentIndex s)"
    by (simp add: passError_None)
  show "documentIndex (passState env s) = map (attach env) (documentIndex s)"
    by (simp add: passState_def Let_def n)
next
  assume "passError env (documentIndex s) = None"
  then have n: "embeddedPrefix env (documentIndex s) = length (documentIndex s)"
    by (simp add: passError_None)
  show "pipelineCalls (passState env s)
        = pipelineCalls s @ map (\<lambda>kd. pipelineText (snd kd)) (documentIndex s)"
    by (simp add: passState_def Let_def n)
qed

theorem generateEmbeddings_pass_witness:
  "generateEmbeddings envAB (storeAB\<lparr>embeddingsGenerated := True\<rparr>)
     = (Inr (), storeAB\<lparr>embeddingsGenerated := True\<rparr>) \<and>
   generateEmbeddings (envAB\<lparr>loadPipeline := Some ''no model''\<rparr>) storeAB
     = (Inl (Error ''Embedding initialization failed: no model''), storeAB) \<and>
   generateEmbeddings envFail storeAB
     = (Inl (Error ''Embedding generation failed: out of memory''),
        storeAB\<lparr>documentIndex := [(''learn/a'', docA\<lparr>embedding := Some [1, 0]\<rparr>), (''learn/b'', docB)],
          initialized := True,
          pipelineCalls := [''State. . use state'', ''Routing. Routes. no state here'']\<rparr>) \<and>
   generateEmbeddings envOther storeAB
     = (Inr (),
        storeAB\<lparr>documentIndex := [(''learn/a'', docA\<lparr>embedding := Some [0, 1]\<rparr>),
            (''learn/b'', docB\<lparr>embedding := Some [0, 1]\<rparr>)],
          embeddingsGenerated := True, initialized := True,
          pipelineCalls := [''State. . use state'', ''Routing. Routes. no state here'']\<rparr>) \<and>
   documentIndex (passState envOther storeAB) = map (attach envOther) (documentIndex storeAB)"
proof -
  have flags: "\<not> embeddingsGenerated storeAB" "\<not> initialized storeAB"
    "loadPipeline envFail = None" "loadPipeline envOther = None"
    by (simp_all add: storeAB_def envFail_def envOther_def envAB_def)
  have gen: "embeddingsGenerated (storeAB\<lparr>embeddingsGenerated := True\<rparr>)"
    by simp
  have noModel: "loadPipeline (envAB\<lparr>loadPipeline := Some ''no model''\<rparr>) = Some ''no model''"
    by simp
  have errFail: "passError envFail (documentIndex storeAB)
      = Some (Error ''Embedding generation failed: out of memory'')"
    by (simp add: passError_def pipelineText_def embeddingText_def slice_def envFail_def
        envAB_def storeAB_def docA_def docB_def)
  have stFail: "passState envFail storeAB
      = storeAB\<lparr>documentIndex := [(''learn/a'', docA\<lparr>embedding := Some [1, 0]\<rparr>), (''learn/b'', docB)],
          initialized := True,
          pipelineCalls := [''State. . use state'', ''Routing. Routes. no state here'']\<rparr>"
    by (simp add: passState_def passError_def attach_def pipelineText_def embeddingText_def
        slice_def envFail_def envAB_def storeAB_def docA_def docB_def Let_def)
  have errOther: "passError envOther (documentIndex storeAB) = None"
    by (simp add: passError_def pipelineText_def embeddingText_def slice_def envOther_def
        envAB_def storeAB_def docA_def docB_def)
  have stOther: "passState envOther storeAB
      = storeAB\<lparr>documentIndex := [(''learn/a'', docA\<lparr>embedding := Some [0, 1]\<rparr>),
            (''learn/b'', docB\<lparr>embedding := Some [0, 1]\<rparr>)],
          embeddingsGenerated := True, initialized := True,
          pipelineCalls := [''State. . use state'', ''Routing. Routes. no state here'']\<rparr>"
    by (simp add: passState_def passError_def attach_def pipelineText_def embeddingText_def
        slice_def envOther_def envAB_def storeAB_def docA_def docB_def Let_def)
  have 1: "generateEmbeddings envAB (storeAB\<lparr>embeddingsGenerated := True\<rparr>)
     = (Inr (), storeAB\<lparr>embeddingsGenerated := True\<rparr>)"
    using generateEmbeddings_pass [of "storeAB\<lparr>embeddingsGenerated := True\<rparr>" envAB "[]"] gen
    by blast
  have 2: "generateEmbeddings (envAB\<lparr>loadPipeline := Some ''no model''\<rparr>) storeAB
     = (Inl (Error (''Embedding initialization failed: '' @ ''no model'')), storeAB)"
    using generateEmbeddings_pass
      [of storeAB "envAB\<lparr>loadPipeline := Some ''no model''\<rparr>" "''no model''"] flags noModel
    by blast
  have 3: "generateEmbeddings envFail storeAB =
        (case passError envFail (documentIndex storeAB) of None \<Rightarrow> Inr () | Some e \<Rightarrow> Inl e,
         passState envFail storeAB)"
    using generateEmbeddings_pass [of storeAB envFail "[]"] flags by blast
  have 4: "generateEmbeddings envOther storeAB =
        (case passError envOther (documentIndex storeAB) of None \<Rightarrow> Inr () | Some e \<Rightarrow> Inl e,
         passState envOther storeAB)"
    using generateEmbeddings_pass [of storeAB envOther "[]"] flags by blast
  have 5: "documentIndex (passState envOther storeAB)
      = map (attach envOther) (documentIndex storeAB)"
    using generateEmbeddings_pass [of storeAB envOther "[]"] errOther by blast
  show ?thesis
    using 1 2 3 4 5 by (simp add: errFail stFail errOther stOther)
qed
text \<open>
  The claim as the specification words it fails: a pass does not leave alone a record that
  has an embedding. A first pass fails on the second record and leaves the first one
  embedded; the next pass calls the model on the first record again and replaces its
  embedding.
\<close>

theorem generateEmbeddings_only_lacking_counterexample:
  "map (\<lambda>kd. embedding (snd kd)) (documentIndex (snd (generateEmbeddings envFail storeAB)))
     = [Some [1, 0], None] \<and>
   fst (generateEmbeddings envFail storeAB)
     = Inl (Error ''Embedding generation failed: out of memory'') \<and>
   map (\<lambda>kd. embedding (snd kd))
     (documentIndex (snd (generateEmbeddings envOther (snd (generateEmbeddings envFail storeAB)))))
     = [Some [0, 1], Some [0, 1]] \<and>
   pipelineCalls (snd (generateEmbeddings envOther (snd (generateEmbeddings envFail storeAB))))
     = [''State. . use state'', ''Routing. Routes. no state here'',
        ''State. . use state'', ''Routing. Routes. no state here'']"
  by (simp add: generateEmbeddings_def initialize_def generateEmbedding_def embeddingText_def
      slice_def envFail_def envOther_def envAB_def storeAB_def docA_def docB_def Let_def)

subsection \<open>Evaluation of the example data\<close>

lemmas string_defs = toLowerCase_def lowerChar_def isSpace_def trim_def slice_def
lemmas regexp_defs = RegExp_def consAtom_def atomMatches_def matchCount_def
lemmas example_defs = docA_def docB_def docAe_def docBe_def

lemma example_terms: "queryTermsOf ''state'' = [''state'']"
  by (simp add: queryTermsOf_def string_defs)

lemma example_scores:
  "scoreDocument engine docA [''state''] = Inr 10.5"
  "scoreDocument engine docB [''state''] = Inr 0.5"
  "scoreDocument engine docAe [''state''] = Inr 10.5"
  "scoreDocument engine docBe [''state''] = Inr 0.5"
  by (simp_all add: scoreDocument_def scoreTerm_def string_defs regexp_defs example_defs)

lemma example_snippets:
  "generateSnippet docA [''state''] = ''use state''"
  "generateSnippet docB [''state''] = ''no state here''"
  "generateSnippet docAe [''state''] = ''use state''"
  "generateSnippet docBe [''state''] = ''no state here''"
  by (simp_all add: generateSnippet_def contextRadius_def string_defs example_defs)

lemma example_similarities:
  "docSimilarity [1, 0] docAe = Inr 1"
  "docSimilarity [1, 0] docBe = Inr 0"
  by (simp_all add: docSimilarity_def cosineSimilarity_def example_defs)

lemma example_pass: "generateEmbeddings envAB storeAB = (Inr (), storeEmb)"
  by (simp add: generateEmbeddings_def initialize_def generateEmbedding_def embeddingText_def
      string_defs envAB_def storeAB_def storeEmb_def example_defs)

lemma example_query_embedding:
  "generateEmbedding envAB ''state'' s
     = (Inr [1, 0], s\<lparr>initialized := True, pipelineCalls := pipelineCalls s @ [''state'']\<rparr>)"
  by (simp add: generateEmbedding_def initialize_def string_defs envAB_def)

lemma example_semanticSearch:
  "semanticSearch envAB ''state'' noOptions storeAB
     = (Inr [\<lparr>doc = docAe, score = 0.7315, snippet = ''use state''\<rparr>],
        storeEmb\<lparr>pipelineCalls := pipelineCalls storeEmb @ [''state'']\<rparr>)"
proof -
  have cands: "candidates (sectionFilterOf noOptions) s = [docAe, docBe]"
    if "documentIndex s = documentIndex storeEmb" for s
    using that
    by (simp add: candidates_def sectionFilterOf_def noOptions_def passesSection_def storeEmb_def
        example_defs)
  have lim: "limitOf noOptions = 10"
    by (simp add: limitOf_def noOptions_def defaultLimit_def maxLimit_def)
  have gen: "\<not> embeddingsGenerated storeAB"
    by (simp add: storeAB_def)
  have st: "storeEmb\<lparr>initialized := True, pipelineCalls := pipelineCalls storeEmb @ [''state'']\<rparr>
      = storeEmb\<lparr>pipelineCalls := pipelineCalls storeEmb @ [''state'']\<rparr>"
    by (simp add: storeEmb_def)
  show ?thesis
    unfolding semanticSearch_def
    by (simp add: gen example_pass example_query_embedding example_terms cands lim
        example_scores example_similarities example_snippets hybridKeywordWeight_def
        hybridSemanticWeight_def semanticMinSimilarity_def sortByScore_def slice_def st)
qed

lemma example_keywordResults:
  "keywordResults engine (minScoreOf (keywordOptions\<lparr>limit := l\<rparr>))
      (sectionFilterOf (keywordOptions\<lparr>limit := l\<rparr>)) [''state'']
      (map snd (documentIndex storeAB))
    = Inr [\<lparr>doc = docA, score = 10.5, snippet = ''use state''\<rparr>,
           \<lparr>doc = docB, score = 0.5, snippet = ''no state here''\<rparr>]"
  by (simp add: minScoreOf_def sectionFilterOf_def keywordOptions_def noOptions_def
      configMinScore_def passesSection_def storeAB_def example_scores example_snippets)

lemma example_search_keyword:
  "search envAB ''state'' (keywordOptions\<lparr>limit := l\<rparr>) storeAB
     = (Inr (slice [\<lparr>doc = docA, score = 10.5, snippet = ''use state''\<rparr>,
                    \<lparr>doc = docB, score = 0.5, snippet = ''no state here''\<rparr>] 0
               (limitOf (keywordOptions\<lparr>limit := l\<rparr>))), storeAB)"
proof -
  have ix: "indexed storeAB" by (simp add: storeAB_def)
  have tr: "trim ''state'' \<noteq> []" by (simp add: string_defs)
  have md: "\<not> useSemanticOf (keywordOptions\<lparr>limit := l\<rparr>)"
    by (simp add: useSemanticOf_def keywordOptions_def noOptions_def)
  show ?thesis
    by (simp add: search_def ix tr md keywordSearch_def example_terms example_keywordResults
        sortByScore_def)
qed

lemma example_search_hybrid:
  "search envAB ''state'' noOptions storeAB
     = (Inr [\<lparr>doc = docAe, score = 0.7315, snippet = ''use state''\<rparr>],
        storeEmb\<lparr>pipelineCalls := pipelineCalls storeEmb @ [''state'']\<rparr>)"
proof -
  have ix: "indexed storeAB" by (simp add: storeAB_def)
  have tr: "trim ''state'' \<noteq> []" by (simp add: string_defs)
  have md: "useSemanticOf noOptions"
    by (simp add: useSemanticOf_def noOptions_def semanticSearchEnabled_def)
  show ?thesis
    by (simp add: search_def ix tr md example_semanticSearch)
qed

subsection \<open>Result lists\<close>

text \<open>The value of \<open>cosineSimilarity\<close>, for the statements about hybrid search.\<close>

lemma cosineSimilarity_value:
  "cosineSimilarity a b = Inr sem \<longleftrightarrow>
   length a = length b \<and>
   sem = (if magnitude a = 0 \<or> magnitude b = 0 then 0
          else dot a b / (magnitude a * magnitude b))"
proof (cases "length a = length b")
  case False
  then show ?thesis by (simp add: cosineSimilarity_def)
next
  case True
  have loop: "cosineLoop a b (0, 0, 0) =
      (dot a b, (\<Sum>i < length a. (a ! i)\<^sup>2), (\<Sum>i < length b. (b ! i)\<^sup>2))"
    using cosineLoop_sums [OF True, of 0 0 0] True
    by (simp add: dot_def power2_eq_square)
  show ?thesis
    using True by (auto simp: cosineSimilarity_def loop magnitude_def Let_def)
qed

lemma docSimilarity_similarityTo:
  "docSimilarity qe d = Inr sem \<longleftrightarrow> similarityTo qe d = Some sem"
  by (cases "embedding d")
     (auto simp: docSimilarity_def similarityTo_def cosineSimilarity_value)

lemma similarityTo_Some:
  "similarityTo qe d = Some sem \<longleftrightarrow>
   (\<exists>v. embedding d = Some v \<and> length v = length qe \<and> cosineSimilarity qe v = Inr sem \<and>
        sem = (if magnitude qe = 0 \<or> magnitude v = 0 then 0
               else dot qe v / (magnitude qe * magnitude v)))"
  by (cases "embedding d") (auto simp: similarityTo_def cosineSimilarity_value)

lemma passesSection_inSection:
  "passesSection (sectionFilterOf options) d = inSection options d"
  by (cases "sectionOpt options")
     (auto simp: passesSection_def sectionFilterOf_def inSection_def toLowerCase_def)

lemma candidates_hybridCandidates:
  "candidates (sectionFilterOf options) s = hybridCandidates options s"
  by (simp add: candidates_def hybridCandidates_def passesSection_inSection)

lemma reachesFloor_candidates:
  "filter (reachesFloor qe) (hybridCandidates options s)
     = filter (\<lambda>d. inSection options d \<and> reachesFloor qe d) (map snd (documentIndex s))"
proof -
  have "reachesFloor qe d \<Longrightarrow> embedding d \<noteq> None" for d
    by (auto simp: reachesFloor_def similarityTo_def split: option.splits)
  then show ?thesis
    by (auto simp: hybridCandidates_def intro: filter_cong)
qed

lemma hybridResults_Inr:
  "hybridResults engine qe terms ds = Inr results \<Longrightarrow>
   map doc results = filter (reachesFloor qe) ds \<and>
   (\<forall>d \<in> set ds. \<exists>kw sem.
       scoreDocument engine d terms = Inr kw \<and> similarityTo qe d = Some sem) \<and>
   (\<forall>r \<in> set results. \<exists>kw sem.
       scoreDocument engine (doc r) terms = Inr kw \<and> similarityTo qe (doc r) = Some sem \<and>
       0.3 \<le> sem \<and> score r = 0.3 * (kw / 100) + 0.7 * sem \<and>
       snippet r = generateSnippet (doc r) terms)"
proof (induction ds arbitrary: results)
  case Nil
  then show ?case by simp
next
  case (Cons d ds)
  from Cons.prems obtain kw where kw: "scoreDocument engine d terms = Inr kw"
    by (auto split: sum.splits)
  from Cons.prems kw obtain sem where sem: "docSimilarity qe d = Inr sem"
    by (auto split: sum.splits)
  from Cons.prems kw sem obtain rest where rest: "hybridResults engine qe terms ds = Inr rest"
    by (auto simp: Let_def split: sum.splits)
  note IH = Cons.IH [OF rest]
  have sim: "similarityTo qe d = Some sem"
    using sem by (simp add: docSimilarity_similarityTo)
  have results: "results =
      (if 0.3 \<le> sem
       then \<lparr>doc = d, score = 0.3 * (kw / 100) + 0.7 * sem, snippet = generateSnippet d terms\<rparr> # rest
       else rest)"
    using Cons.prems kw sem rest
    by (auto simp: Let_def semanticMinSimilarity_def hybridKeywordWeight_def
        hybridSemanticWeight_def)
  show ?case
    using IH kw sim
    by (auto simp: results reachesFloor_def)
qed

lemma keywordResults_Inr:
  "keywordResults (jsRegExp env) (minScoreOf options) (sectionFilterOf options) terms ds
     = Inr results \<Longrightarrow>
   map doc results
     = filter (\<lambda>d. inSection options d \<and> reachesMinScore env options terms d) ds \<and>
   (\<forall>r \<in> set results. scoreDocument (jsRegExp env) (doc r) terms = Inr (score r))"
proof (induction ds arbitrary: results)
  case Nil
  then show ?case by simp
next
  case (Cons d ds)
  have ms: "minScoreOf options = (case minScore options of None \<Rightarrow> 0.1 | Some m \<Rightarrow> m)"
    by (simp add: minScoreOf_def configMinScore_def split: option.splits)
  show ?case
  proof (cases "inSection options d")
    case False
    then show ?thesis using Cons by (simp add: passesSection_inSection)
  next
    case True
    from Cons.prems True obtain sc where sc: "scoreDocument (jsRegExp env) d terms = Inr sc"
      by (auto simp: passesSection_inSection split: sum.splits)
    from Cons.prems True sc obtain rest where
      rest: "keywordResults (jsRegExp env) (minScoreOf options) (sectionFilterOf options)
          terms ds = Inr rest"
      by (auto simp: passesSection_inSection split: sum.splits)
    have results: "results =
        (if (case minScore options of None \<Rightarrow> 0.1 | Some m \<Rightarrow> m) \<le> sc
         then \<lparr>doc = d, score = sc, snippet = generateSnippet d terms\<rparr> # rest else rest)"
      using Cons.prems True sc rest by (auto simp: passesSection_inSection ms)
    show ?thesis
      using Cons.IH [OF rest] True sc
      by (auto simp: results reachesMinScore_def ms)
  qed
qed

lemma sorted_sortByScore: "sorted_wrt (\<lambda>a b. score b \<le> score a) (sortByScore results)"
proof -
  have "sorted (map (\<lambda>r. - score r) (sort_key (\<lambda>r. - score r) results))"
    by (rule sorted_sort_key)
  then show ?thesis
    by (simp add: sortByScore_def sorted_map)
qed

lemma length_sortByScore: "length (sortByScore results) = length results"
  by (simp add: sortByScore_def)

lemma set_sortByScore: "set (sortByScore results) = set results"
  by (simp add: sortByScore_def)

lemma slice_from_start:
  "slice xs 0 l = (if l < 0 then take (length xs - nat (- l)) xs else take (nat l) xs)"
  by (auto simp: slice_def Let_def min_def max_def nat_diff_distrib intro: arg_cong2 [where f = take])

lemma length_slice_le: "length (slice xs 0 l) \<le> length xs"
  by (simp add: slice_from_start)

lemma length_slice_limit: "0 \<le> l \<Longrightarrow> int (length (slice xs 0 l)) \<le> l"
  by (simp add: slice_from_start)

lemma sorted_wrt_slice: "sorted_wrt P xs \<Longrightarrow> sorted_wrt P (slice xs 0 l)"
  by (simp add: slice_from_start sorted_wrt_take)

lemma set_slice: "set (slice xs 0 l) \<subseteq> set xs"
  by (simp add: slice_from_start set_take_subset)

lemma slice_all: "int (length xs) \<le> l \<Longrightarrow> slice xs 0 l = xs"
  by (simp add: slice_from_start)


lemma generateEmbedding_Inr:
  "generateEmbedding env text s = (Inr v, s2) \<Longrightarrow>
   runPipeline env (slice text 0 2000) = Inr v \<and> documentIndex s2 = documentIndex s"
  by (auto simp: generateEmbedding_def initialize_def Let_def
      split: if_splits option.splits sum.splits)

lemma semanticSearch_Inr:
  assumes "semanticSearch env query options s = (Inr returned, s')"
  shows "\<exists>queryEmbedding results.
      runPipeline env (slice query 0 2000) = Inr queryEmbedding \<and>
      hybridResults (jsRegExp env) queryEmbedding (queryTermsOf query)
        (candidates (sectionFilterOf options) s') = Inr results \<and>
      returned = slice (sortByScore results) 0 (limitOf options)"
proof -
  obtain r1 s1 where step1:
    "(if embeddingsGenerated s then (Inr (), s) else generateEmbeddings env s) = (r1, s1)"
    by (cases "if embeddingsGenerated s then (Inr (), s) else generateEmbeddings env s")
  obtain r2 s2 where step2: "generateEmbedding env query s1 = (r2, s2)"
    by (cases "generateEmbedding env query s1")
  from assms step1 obtain u where r1: "r1 = Inr u"
    by (cases r1) (simp_all add: semanticSearch_def)
  from assms step1 step2 r1 obtain qe where r2: "r2 = Inr qe"
    by (cases r2) (simp_all add: semanticSearch_def)
  from assms step1 step2 r1 r2 have s': "s' = s2"
    by (auto simp: semanticSearch_def split: sum.splits)
  from assms step1 step2 r1 r2 s' obtain results where
    results: "hybridResults (jsRegExp env) qe (queryTermsOf query)
        (candidates (sectionFilterOf options) s') = Inr results"
    and returned: "returned = slice (sortByScore results) 0 (limitOf options)"
    by (auto simp: semanticSearch_def split: sum.splits)
  from step2 r2 have "runPipeline env (slice query 0 2000) = Inr qe"
    by (simp add: generateEmbedding_Inr)
  with results returned show ?thesis by blast
qed

subsection \<open>Hybrid search\<close>

text \<open>
  Claim C1, as the code has it. When a hybrid search returns, the model has given an
  embedding of the query, and the loop over the candidates (the records of the section
  that carry an embedding) has produced the list \<open>results\<close>, of which the returned list is
  the sorted copy cut to the limit. For every candidate the keyword score \<open>kw\<close> exists, and
  so does the cosine similarity \<open>sem\<close> of the query embedding and the embedding of the
  record, which is their dot product divided by the product of their magnitudes (\<open>0\<close> on a
  magnitude \<open>0\<close>). The candidate is in \<open>results\<close> exactly when \<open>0.3 \<le> sem\<close>, whatever \<open>kw\<close>
  is, and a result of the candidate, in \<open>results\<close> or in the returned list, carries the
  score \<open>0.3 * (kw / 100) + 0.7 * sem\<close>. A candidate in the returned list has \<open>0.3 \<le> sem\<close>;
  when the results are no more than the limit, the returned list is the whole sorted list
  and a candidate is in it exactly when \<open>0.3 \<le> sem\<close>. This holds of every query, whatever
  the runtime does with the regular expressions of its terms.
\<close>

theorem semanticSearch_hybrid:
  assumes "semanticSearch env query options s = (Inr returned, s')"
  shows "\<exists>queryEmbedding results.
      runPipeline env (slice query 0 2000) = Inr queryEmbedding \<and>
      hybridResults (jsRegExp env) queryEmbedding (queryTermsOf query)
        (candidates (sectionFilterOf options) s') = Inr results \<and>
      candidates (sectionFilterOf options) s' = hybridCandidates options s' \<and>
      returned = slice (sortByScore results) 0 (limitOf options) \<and>
      (\<forall>d \<in> set (hybridCandidates options s'). \<exists>kw v sem.
          scoreDocument (jsRegExp env) d (queryTermsOf query) = Inr kw \<and>
          embedding d = Some v \<and> length v = length queryEmbedding \<and>
          cosineSimilarity queryEmbedding v = Inr sem \<and>
          sem = (if magnitude queryEmbedding = 0 \<or> magnitude v = 0 then 0
                 else dot queryEmbedding v / (magnitude queryEmbedding * magnitude v)) \<and>
          (d \<in> doc ` set results \<longleftrightarrow> 0.3 \<le> sem) \<and>
          (\<forall>r \<in> set results. doc r = d \<longrightarrow> score r = 0.3 * (kw / 100) + 0.7 * sem) \<and>
          (d \<in> doc ` set returned \<longrightarrow> 0.3 \<le> sem) \<and>
          (\<forall>r \<in> set returned. doc r = d \<longrightarrow> score r = 0.3 * (kw / 100) + 0.7 * sem) \<and>
          (int (length results) \<le> limitOf options \<longrightarrow>
             (d \<in> doc ` set returned \<longleftrightarrow> 0.3 \<le> sem))) \<and>
      map doc results = filter (reachesFloor queryEmbedding) (hybridCandidates options s') \<and>
      set returned \<subseteq> set results \<and>
      doc ` set returned \<subseteq> set (hybridCandidates options s') \<and>
      (int (length results) \<le> limitOf options \<longrightarrow>
         returned = sortByScore results \<and>
         (\<forall>d \<in> set (hybridCandidates options s').
            d \<in> doc ` set returned \<longleftrightarrow> reachesFloor queryEmbedding d))"
proof -
  let ?cands = "hybridCandidates options s'"
  from semanticSearch_Inr [OF assms] obtain qe results where
    qe: "runPipeline env (slice query 0 2000) = Inr qe" and
    results0: "hybridResults (jsRegExp env) qe (queryTermsOf query)
        (candidates (sectionFilterOf options) s') = Inr results" and
    returned: "returned = slice (sortByScore results) 0 (limitOf options)"
    by blast
  have cands: "candidates (sectionFilterOf options) s' = ?cands"
    by (rule candidates_hybridCandidates)
  from results0 have results:
    "hybridResults (jsRegExp env) qe (queryTermsOf query) ?cands = Inr results"
    by (simp only: cands)
  note H = hybridResults_Inr [OF results]
  note docs = H [THEN conjunct1]
  note Hcand = H [THEN conjunct2, THEN conjunct1]
  note Hres = H [THEN conjunct2, THEN conjunct2]
  have docset: "doc ` set results = {d \<in> set ?cands. reachesFloor qe d}"
  proof -
    have "doc ` set results = set (map doc results)" by simp
    also have "\<dots> = {d \<in> set ?cands. reachesFloor qe d}" by (simp only: docs set_filter)
    finally show ?thesis .
  qed
  have sub: "set returned \<subseteq> set results"
    using set_slice [of "sortByScore results" "limitOf options"]
    by (simp add: returned set_sortByScore)
  have subdocs: "doc ` set returned \<subseteq> set ?cands"
    using sub docset by auto
  have each: "\<forall>d \<in> set ?cands. \<exists>kw v sem.
          scoreDocument (jsRegExp env) d (queryTermsOf query) = Inr kw \<and>
          embedding d = Some v \<and> length v = length qe \<and>
          cosineSimilarity qe v = Inr sem \<and>
          sem = (if magnitude qe = 0 \<or> magnitude v = 0 then 0
                 else dot qe v / (magnitude qe * magnitude v)) \<and>
          (d \<in> doc ` set results \<longleftrightarrow> 0.3 \<le> sem) \<and>
          (\<forall>r \<in> set results. doc r = d \<longrightarrow> score r = 0.3 * (kw / 100) + 0.7 * sem) \<and>
          (d \<in> doc ` set returned \<longrightarrow> 0.3 \<le> sem) \<and>
          (\<forall>r \<in> set returned. doc r = d \<longrightarrow> score r = 0.3 * (kw / 100) + 0.7 * sem) \<and>
          (int (length results) \<le> limitOf options \<longrightarrow>
             (d \<in> doc ` set returned \<longleftrightarrow> 0.3 \<le> sem))"
  proof
    fix d
    assume d: "d \<in> set ?cands"
    from Hcand d obtain kw sem where
      kw: "scoreDocument (jsRegExp env) d (queryTermsOf query) = Inr kw" and
      sem: "similarityTo qe d = Some sem"
      by blast
    from sem obtain v where
      v1: "embedding d = Some v" and v2: "length v = length qe" and
      v3: "cosineSimilarity qe v = Inr sem" and
      v4: "sem = (if magnitude qe = 0 \<or> magnitude v = 0 then 0
                else dot qe v / (magnitude qe * magnitude v))"
      unfolding similarityTo_Some by blast
    have mem: "d \<in> doc ` set results \<longleftrightarrow> 0.3 \<le> sem"
      using d sem by (simp add: docset reachesFloor_def)
    have sc: "score r = 0.3 * (kw / 100) + 0.7 * sem" if r: "r \<in> set results" "doc r = d" for r
    proof -
      from Hres r(1) obtain kw' sem' where
        "scoreDocument (jsRegExp env) (doc r) (queryTermsOf query) = Inr kw'"
        "similarityTo qe (doc r) = Some sem'"
        "score r = 0.3 * (kw' / 100) + 0.7 * sem'"
        by blast
      with kw sem r(2) show ?thesis by simp
    qed
    have mem': "d \<in> doc ` set returned \<longrightarrow> 0.3 \<le> sem"
      using mem sub by auto
    have sc': "score r = 0.3 * (kw / 100) + 0.7 * sem" if "r \<in> set returned" "doc r = d" for r
      using sc that sub by auto
    have uncut: "int (length results) \<le> limitOf options \<longrightarrow>
        (d \<in> doc ` set returned \<longleftrightarrow> 0.3 \<le> sem)"
    proof
      assume "int (length results) \<le> limitOf options"
      then have "returned = sortByScore results"
        by (simp add: returned slice_all length_sortByScore)
      then have "set returned = set results"
        by (simp add: set_sortByScore)
      with mem show "d \<in> doc ` set returned \<longleftrightarrow> 0.3 \<le> sem"
        by simp
    qed
    have sc_all: "\<forall>r \<in> set results. doc r = d \<longrightarrow> score r = 0.3 * (kw / 100) + 0.7 * sem"
      using sc by simp
    have sc_all': "\<forall>r \<in> set returned. doc r = d \<longrightarrow> score r = 0.3 * (kw / 100) + 0.7 * sem"
      using sc' by simp
    show "\<exists>kw v sem.
          scoreDocument (jsRegExp env) d (queryTermsOf query) = Inr kw \<and>
          embedding d = Some v \<and> length v = length qe \<and>
          cosineSimilarity qe v = Inr sem \<and>
          sem = (if magnitude qe = 0 \<or> magnitude v = 0 then 0
                 else dot qe v / (magnitude qe * magnitude v)) \<and>
          (d \<in> doc ` set results \<longleftrightarrow> 0.3 \<le> sem) \<and>
          (\<forall>r \<in> set results. doc r = d \<longrightarrow> score r = 0.3 * (kw / 100) + 0.7 * sem) \<and>
          (d \<in> doc ` set returned \<longrightarrow> 0.3 \<le> sem) \<and>
          (\<forall>r \<in> set returned. doc r = d \<longrightarrow> score r = 0.3 * (kw / 100) + 0.7 * sem) \<and>
          (int (length results) \<le> limitOf options \<longrightarrow>
             (d \<in> doc ` set returned \<longleftrightarrow> 0.3 \<le> sem))"
      using kw v1 v2 v3 v4 mem sc_all mem' sc_all' uncut
      by (intro exI [of _ kw] exI [of _ v] exI [of _ sem] conjI)
  qed
  have whole: "int (length results) \<le> limitOf options \<longrightarrow>
         returned = sortByScore results \<and>
         (\<forall>d \<in> set ?cands. d \<in> doc ` set returned \<longleftrightarrow> reachesFloor qe d)"
  proof
    assume "int (length results) \<le> limitOf options"
    then have r: "returned = sortByScore results"
      by (simp add: returned slice_all length_sortByScore)
    then have "doc ` set returned = {d \<in> set ?cands. reachesFloor qe d}"
      by (simp add: set_sortByScore docset)
    with r show "returned = sortByScore results \<and>
         (\<forall>d \<in> set ?cands. d \<in> doc ` set returned \<longleftrightarrow> reachesFloor qe d)"
      by simp
  qed
  show ?thesis
    using qe results0 cands returned each docs sub subdocs whole
    by (intro exI [of _ qe] exI [of _ results] conjI)
qed

theorem semanticSearch_hybrid_witness:
  "semanticSearch envAB ''state'' noOptions storeAB
     = (Inr [\<lparr>doc = docAe, score = 0.7315, snippet = ''use state''\<rparr>],
        storeEmb\<lparr>pipelineCalls := pipelineCalls storeEmb @ [''state'']\<rparr>) \<and>
   (\<exists>queryEmbedding results.
      runPipeline envAB (slice ''state'' 0 2000) = Inr queryEmbedding \<and>
      map doc results
        = filter (reachesFloor queryEmbedding)
            (hybridCandidates noOptions
               (storeEmb\<lparr>pipelineCalls := pipelineCalls storeEmb @ [''state'']\<rparr>)) \<and>
      set [\<lparr>doc = docAe, score = 0.7315, snippet = ''use state''\<rparr>] \<subseteq> set results \<and>
      [\<lparr>doc = docAe, score = 0.7315, snippet = ''use state''\<rparr>] = sortByScore results) \<and>
   hybridCandidates noOptions
     (storeEmb\<lparr>pipelineCalls := pipelineCalls storeEmb @ [''state'']\<rparr>) = [docAe, docBe] \<and>
   cosineSimilarity [1, 0] [1, 0] = Inr 1 \<and>
   cosineSimilarity [1, 0] [0, 1] = Inr 0"
proof -
  let ?s = "storeEmb\<lparr>pipelineCalls := pipelineCalls storeEmb @ [''state'']\<rparr>"
  let ?r = "[\<lparr>doc = docAe, score = 0.7315, snippet = ''use state''\<rparr>]"
  from semanticSearch_hybrid [OF example_semanticSearch] obtain qe results where
    qe: "runPipeline envAB (slice ''state'' 0 2000) = Inr qe" and
    docs: "map doc results = filter (reachesFloor qe) (hybridCandidates noOptions ?s)" and
    sub: "set ?r \<subseteq> set results" and
    whole: "int (length results) \<le> limitOf noOptions \<longrightarrow>
         ?r = sortByScore results \<and>
         (\<forall>d \<in> set (hybridCandidates noOptions ?s).
            d \<in> doc ` set ?r \<longleftrightarrow> reachesFloor qe d)"
    by (elim exE conjE) (rule that)
  have cands: "hybridCandidates noOptions ?s = [docAe, docBe]"
    by (simp add: hybridCandidates_def inSection_def noOptions_def storeEmb_def example_defs)
  have "length results = length (filter (reachesFloor qe) [docAe, docBe])"
    using docs by (simp add: cands flip: length_map [of doc results])
  then have "length results \<le> 2"
    using length_filter_le [of "reachesFloor qe" "[docAe, docBe]"] by simp
  then have "int (length results) \<le> limitOf noOptions"
    by (simp add: limitOf_def noOptions_def defaultLimit_def maxLimit_def)
  with whole have sorted: "?r = sortByScore results" by blast
  have cos: "cosineSimilarity [1, 0] [1, 0] = Inr 1" "cosineSimilarity [1, 0] [0, 1] = Inr 0"
    by (simp_all add: cosineSimilarity_def)
  from qe docs sub sorted have "\<exists>queryEmbedding results.
      runPipeline envAB (slice ''state'' 0 2000) = Inr queryEmbedding \<and>
      map doc results
        = filter (reachesFloor queryEmbedding) (hybridCandidates noOptions ?s) \<and>
      set ?r \<subseteq> set results \<and> ?r = sortByScore results"
    by (intro exI [of _ qe] exI [of _ results] conjI)
  with example_semanticSearch cands cos show ?thesis
    by (intro conjI)
qed

text \<open>
  The claim as the specification words it fails of the returned list: a record whose
  similarity reaches the floor is left out when the limit cuts the list. Both records of
  the example store get the embedding of the query, so both have the similarity \<open>1\<close>;
  with a limit of \<open>1\<close> the search returns the first and not the second.
\<close>

theorem semanticSearch_cut_counterexample:
  "fst (semanticSearch envSame ''state'' (noOptions\<lparr>limit := Some 1\<rparr>) storeAB)
     = Inr [\<lparr>doc = docAe, score = 0.7315, snippet = ''use state''\<rparr>] \<and>
   hybridCandidates (noOptions\<lparr>limit := Some 1\<rparr>)
       (snd (semanticSearch envSame ''state'' (noOptions\<lparr>limit := Some 1\<rparr>) storeAB))
     = [docAe, docB\<lparr>embedding := Some [1, 0]\<rparr>] \<and>
   runPipeline envSame (slice ''state'' 0 2000) = Inr [1, 0] \<and>
   cosineSimilarity [1, 0] [1, 0] = Inr 1 \<and>
   (0.3 :: real) \<le> 1 \<and>
   docB\<lparr>embedding := Some [1, 0]\<rparr>
     \<notin> doc ` set [\<lparr>doc = docAe, score = 0.7315, snippet = ''use state''\<rparr>]"
proof -
  let ?o = "noOptions\<lparr>limit := Some 1\<rparr>"
  let ?docB = "docB\<lparr>embedding := Some [1, 0]\<rparr>"
  let ?s = "storeAB\<lparr>documentIndex := [(''learn/a'', docAe), (''learn/b'', ?docB)],
      embeddingsGenerated := True, initialized := True,
      pipelineCalls := [''State. . use state'', ''Routing. Routes. no state here'', ''state'']\<rparr>"
  have gen: "\<not> embeddingsGenerated storeAB"
    by (simp add: storeAB_def)
  have pass: "generateEmbeddings envSame storeAB
      = (Inr (), storeAB\<lparr>documentIndex := [(''learn/a'', docAe), (''learn/b'', ?docB)],
           embeddingsGenerated := True, initialized := True,
           pipelineCalls := [''State. . use state'', ''Routing. Routes. no state here'']\<rparr>)"
    by (simp add: generateEmbeddings_def initialize_def generateEmbedding_def embeddingText_def
        string_defs envSame_def envAB_def storeAB_def example_defs)
  have qe: "generateEmbedding envSame ''state''
        (storeAB\<lparr>documentIndex := [(''learn/a'', docAe), (''learn/b'', ?docB)],
           embeddingsGenerated := True, initialized := True,
           pipelineCalls := [''State. . use state'', ''Routing. Routes. no state here'']\<rparr>)
      = (Inr [1, 0], ?s)"
    by (simp add: generateEmbedding_def string_defs envSame_def envAB_def storeAB_def)
  have cands: "candidates (sectionFilterOf ?o) ?s = [docAe, ?docB]"
    by (simp add: candidates_def sectionFilterOf_def noOptions_def passesSection_def storeAB_def
        example_defs)
  have scB: "scoreDocument engine ?docB [''state''] = Inr 0.5" for engine
    by (simp add: scoreDocument_def scoreTerm_def string_defs regexp_defs example_defs)
  have snB: "generateSnippet ?docB [''state''] = ''no state here''"
    by (simp add: generateSnippet_def contextRadius_def string_defs example_defs)
  have simB: "docSimilarity [1, 0] ?docB = Inr 1"
    by (simp add: docSimilarity_def cosineSimilarity_def)
  have lim: "limitOf ?o = 1"
    by (simp add: limitOf_def maxLimit_def)
  have run: "semanticSearch envSame ''state'' ?o storeAB
      = (Inr [\<lparr>doc = docAe, score = 0.7315, snippet = ''use state''\<rparr>], ?s)"
    unfolding semanticSearch_def
    by (simp add: gen pass qe example_terms cands lim example_scores example_similarities
        example_snippets scB snB simB hybridKeywordWeight_def hybridSemanticWeight_def
        semanticMinSimilarity_def sortByScore_def slice_def)
  have 1: "fst (semanticSearch envSame ''state'' ?o storeAB)
      = Inr [\<lparr>doc = docAe, score = 0.7315, snippet = ''use state''\<rparr>]"
    by (simp add: run)
  have 2: "hybridCandidates ?o (snd (semanticSearch envSame ''state'' ?o storeAB))
      = [docAe, ?docB]"
    using cands by (simp add: run candidates_hybridCandidates)
  have 3: "runPipeline envSame (slice ''state'' 0 2000) = Inr [1, 0]"
    by (simp add: envSame_def)
  have 4: "cosineSimilarity [1, 0] [1, 0] = Inr 1"
    by (simp add: cosineSimilarity_def)
  have 5: "(0.3 :: real) \<le> 1"
    by simp
  have 6: "?docB \<notin> doc ` set [\<lparr>doc = docAe, score = 0.7315, snippet = ''use state''\<rparr>]"
    by (simp add: example_defs)
  from 1 2 3 4 5 6 show ?thesis
    by (intro conjI)
qed

subsection \<open>Count and order of the results\<close>

lemma hybridMode_useSemanticOf: "hybridMode options = useSemanticOf options"
  by (simp add: hybridMode_def useSemanticOf_def semanticSearchEnabled_def split: option.splits)

text \<open>
  Claim C3, as the code has it. When \<open>search\<close> returns, in either mode, the returned list
  is sorted by score in non-increasing order and is no longer than the list of the
  qualifying records. With a requested limit \<open>l\<close> of at least \<open>1\<close> it has at most
  \<open>min l 50\<close> elements; with no requested limit, or a requested limit of \<open>0\<close>, the
  default applies and it has at most \<open>10\<close> elements. This holds of every query, whatever
  the runtime does with the regular expressions of its terms.
\<close>

theorem search_count_and_order:
  assumes "search env query options s = (Inr returned, s')"
  shows "sorted_wrt (\<lambda>a b. score b \<le> score a) returned \<and>
         length returned \<le> length (qualifying env query options s') \<and>
         (\<forall>l. limit options = Some l \<and> 1 \<le> l \<longrightarrow> int (length returned) \<le> min l 50) \<and>
         (limit options = None \<or> limit options = Some 0 \<longrightarrow> length returned \<le> 10)"
proof -
  have "\<exists>results. returned = slice (sortByScore results) 0 (limitOf options) \<and>
          length results \<le> length (qualifying env query options s')"
  proof -
    obtain r1 s1 where step1:
      "(if indexed s then (Inr (), s) else indexDocuments env s) = (r1, s1)"
      by (cases "if indexed s then (Inr (), s) else indexDocuments env s")
    from assms step1 obtain u where r1: "r1 = Inr u"
      by (cases r1) (simp_all add: search_def)
    show ?thesis
    proof (cases "trim query = []")
      case True
      with assms step1 r1 have "returned = []"
        by (simp add: search_def)
      then have "returned = slice (sortByScore []) 0 (limitOf options)"
        by (simp add: sortByScore_def slice_def)
      then show ?thesis by (intro exI [of _ "[]"]) simp
    next
      case False
      show ?thesis
      proof (cases "useSemanticOf options")
        case True
        with assms step1 r1 False
        have sem: "semanticSearch env query options s1 = (Inr returned, s')"
          by (simp add: search_def)
        from semanticSearch_Inr [OF sem] obtain qe results where
          qe: "runPipeline env (slice query 0 2000) = Inr qe" and
          results: "hybridResults (jsRegExp env) qe (queryTermsOf query)
              (candidates (sectionFilterOf options) s') = Inr results" and
          returned: "returned = slice (sortByScore results) 0 (limitOf options)"
          by blast
        from hybridResults_Inr [OF results]
        have "map doc results
            = filter (reachesFloor qe) (hybridCandidates options s')"
          by (simp add: candidates_hybridCandidates)
        then have "map doc results = qualifying env query options s'"
          using True qe
          by (simp add: qualifying_def queryEmbeddingOf_def hybridMode_useSemanticOf
              reachesFloor_candidates)
        then have "length results = length (qualifying env query options s')"
          by (simp flip: length_map [of doc results])
        with returned show ?thesis by auto
      next
        case sem: False
        with assms step1 r1 False
        have kw: "keywordSearch env query options s1 = Inr returned" and s': "s' = s1"
          by (auto simp: search_def)
        from kw obtain results where
          results: "keywordResults (jsRegExp env) (minScoreOf options) (sectionFilterOf options)
              (queryTermsOf query) (map snd (documentIndex s')) = Inr results" and
          returned: "returned = slice (sortByScore results) 0 (limitOf options)"
          by (auto simp: keywordSearch_def Let_def s' split: sum.splits)
        from keywordResults_Inr [OF results]
        have "map doc results = qualifying env query options s'"
          using sem by (simp add: qualifying_def hybridMode_useSemanticOf)
        then have "length results = length (qualifying env query options s')"
          by (simp flip: length_map [of doc results])
        with returned show ?thesis by auto
      qed
    qed
  qed
  then obtain results where
    returned: "returned = slice (sortByScore results) 0 (limitOf options)" and
    len: "length results \<le> length (qualifying env query options s')"
    by blast
  have sorted: "sorted_wrt (\<lambda>a b. score b \<le> score a) returned"
    unfolding returned by (intro sorted_wrt_slice sorted_sortByScore)
  have count: "length returned \<le> length (qualifying env query options s')"
    using length_slice_le [of "sortByScore results" "limitOf options"] len
    by (simp add: returned length_sortByScore)
  have lim: "int (length returned) \<le> min l 50" if "limit options = Some l \<and> 1 \<le> l" for l
  proof -
    from that have "limitOf options = min l 50" "0 \<le> min l 50"
      by (auto simp: limitOf_def maxLimit_def)
    then show ?thesis
      using length_slice_limit [of "limitOf options" "sortByScore results"]
      by (simp add: returned)
  qed
  have dflt: "length returned \<le> 10" if "limit options = None \<or> limit options = Some 0"
  proof -
    from that have "limitOf options = 10"
      by (auto simp: limitOf_def maxLimit_def defaultLimit_def)
    then show ?thesis
      using length_slice_limit [of "limitOf options" "sortByScore results"]
      by (simp add: returned)
  qed
  from sorted count lim dflt show ?thesis by blast
qed

lemma example_search_runtime:
  "search envAB ''state?'' keywordOptions storeAB
     = (Inr [\<lparr>doc = docA, score = 0.5, snippet = ''use state...''\<rparr>,
             \<lparr>doc = docB, score = 0.5, snippet = ''Routes''\<rparr>], storeAB)"
proof -
  have ix: "indexed storeAB" by (simp add: storeAB_def)
  have tr: "trim ''state?'' \<noteq> []" by (simp add: string_defs)
  have md: "\<not> useSemanticOf keywordOptions"
    by (simp add: useSemanticOf_def keywordOptions_def noOptions_def)
  have terms: "queryTermsOf ''state?'' = [''state?'']"
    by (simp add: queryTermsOf_def string_defs)
  have rt: "jsRegExp envAB = exampleRuntime"
    by (simp add: envAB_def)
  have re: "RegExp exampleRuntime ''state?''
      = Inr (Runtime (countMatches [Lit CHR ''s'', Lit CHR ''t'', Lit CHR ''a'', Lit CHR ''t''] 0))"
    by (simp add: regexp_defs exampleRuntime_def)
  have scs: "scoreDocument exampleRuntime docA [''state?''] = Inr 0.5"
    "scoreDocument exampleRuntime docB [''state?''] = Inr 0.5"
    by (simp_all add: scoreDocument_def scoreTerm_def re matchCount_def atomMatches_def
        string_defs example_defs)
  have sns: "generateSnippet docA [''state?''] = ''use state...''"
    "generateSnippet docB [''state?''] = ''Routes''"
    by (simp_all add: generateSnippet_def contextRadius_def string_defs example_defs)
  have vals: "map snd (documentIndex storeAB) = [docA, docB]"
    by (simp add: storeAB_def)
  have opts: "minScoreOf keywordOptions = 0.1" "limitOf keywordOptions = 10"
    "sectionFilterOf keywordOptions = None"
    by (simp_all add: minScoreOf_def limitOf_def sectionFilterOf_def keywordOptions_def
        noOptions_def configMinScore_def defaultLimit_def maxLimit_def)
  show ?thesis
    by (simp add: search_def ix tr md keywordSearch_def terms rt scs sns vals opts
        passesSection_def sortByScore_def slice_def)
qed

theorem search_count_and_order_witness:
  "search envAB ''state'' (keywordOptions\<lparr>limit := Some 1\<rparr>) storeAB
     = (Inr [\<lparr>doc = docA, score = 10.5, snippet = ''use state''\<rparr>], storeAB) \<and>
   length [\<lparr>doc = docA, score = 10.5, snippet = ''use state''\<rparr>]
     \<le> length (qualifying envAB ''state'' (keywordOptions\<lparr>limit := Some 1\<rparr>) storeAB) \<and>
   int (length [\<lparr>doc = docA, score = 10.5, snippet = ''use state''\<rparr>]) \<le> min 1 50 \<and>
   search envAB ''state'' noOptions storeAB
     = (Inr [\<lparr>doc = docAe, score = 0.7315, snippet = ''use state''\<rparr>],
        storeEmb\<lparr>pipelineCalls := pipelineCalls storeEmb @ [''state'']\<rparr>) \<and>
   length [\<lparr>doc = docAe, score = 0.7315, snippet = ''use state''\<rparr>] \<le> 10 \<and>
   search envAB ''state?'' keywordOptions storeAB
     = (Inr [\<lparr>doc = docA, score = 0.5, snippet = ''use state...''\<rparr>,
             \<lparr>doc = docB, score = 0.5, snippet = ''Routes''\<rparr>], storeAB) \<and>
   length [\<lparr>doc = docA, score = 0.5, snippet = ''use state...''\<rparr>,
           \<lparr>doc = docB, score = 0.5, snippet = ''Routes''\<rparr>]
     \<le> length (qualifying envAB ''state?'' keywordOptions storeAB)"
proof -
  have lim: "limitOf (keywordOptions\<lparr>limit := Some 1\<rparr>) = 1"
    by (simp add: limitOf_def maxLimit_def)
  have kw: "search envAB ''state'' (keywordOptions\<lparr>limit := Some 1\<rparr>) storeAB
     = (Inr [\<lparr>doc = docA, score = 10.5, snippet = ''use state''\<rparr>], storeAB)"
    by (simp add: example_search_keyword lim slice_def)
  have l1: "limit (keywordOptions\<lparr>limit := Some 1\<rparr>) = Some 1 \<and> (1::int) \<le> 1"
    by simp
  have l2: "limit noOptions = None \<or> limit noOptions = Some 0"
    by (simp add: noOptions_def)
  note A = search_count_and_order [OF kw]
  note B = search_count_and_order [OF example_search_hybrid]
  note C = search_count_and_order [OF example_search_runtime]
  have a1: "length [\<lparr>doc = docA, score = 10.5, snippet = ''use state''\<rparr>]
     \<le> length (qualifying envAB ''state'' (keywordOptions\<lparr>limit := Some 1\<rparr>) storeAB)"
    using A by (elim conjE)
  have a2: "int (length [\<lparr>doc = docA, score = 10.5, snippet = ''use state''\<rparr>]) \<le> min 1 50"
    using A l1 by blast
  have b1: "length [\<lparr>doc = docAe, score = 0.7315, snippet = ''use state''\<rparr>] \<le> 10"
    using B l2 by blast
  have c1: "length [\<lparr>doc = docA, score = 0.5, snippet = ''use state...''\<rparr>,
           \<lparr>doc = docB, score = 0.5, snippet = ''Routes''\<rparr>]
     \<le> length (qualifying envAB ''state?'' keywordOptions storeAB)"
    using C by (elim conjE)
  from kw a1 a2 example_search_hybrid b1 example_search_runtime c1 show ?thesis
    by (intro conjI)
qed

text \<open>
  The claim as the specification words it fails for a requested limit of \<open>0\<close>, which
  gives way to the default, and for a negative one, which drops elements from the end of
  the list: with two qualifying records, a limit of \<open>0\<close> returns both and a limit of
  \<open>-1\<close> returns one.
\<close>

theorem search_limit_counterexample:
  "fst (search envAB ''state'' (keywordOptions\<lparr>limit := Some 0\<rparr>) storeAB)
     = Inr [\<lparr>doc = docA, score = 10.5, snippet = ''use state''\<rparr>,
            \<lparr>doc = docB, score = 0.5, snippet = ''no state here''\<rparr>] \<and>
   \<not> int (length [\<lparr>doc = docA, score = 10.5, snippet = ''use state''\<rparr>,
                     \<lparr>doc = docB, score = 0.5, snippet = ''no state here''\<rparr>]) \<le> min 0 maxLimit \<and>
   fst (search envAB ''state'' (keywordOptions\<lparr>limit := Some (- 1)\<rparr>) storeAB)
     = Inr [\<lparr>doc = docA, score = 10.5, snippet = ''use state''\<rparr>] \<and>
   \<not> int (length [\<lparr>doc = docA, score = 10.5, snippet = ''use state''\<rparr>]) \<le> min (- 1) maxLimit"
  by (simp add: example_search_keyword limitOf_def defaultLimit_def maxLimit_def slice_def)

subsection \<open>Lookup\<close>

lemma stripMd_append: "stripMd (p @ ''.md'') = p"
  by (simp add: stripMd_def suffix_def)

lemma stripMd_plain: "\<not> suffix ''.md'' p \<Longrightarrow> stripMd p = p"
  by (simp add: stripMd_def)

text \<open>
  Claim C8, as the code has it. On an engine whose store is built, or whose corpus can be
  listed, \<open>getDocByPath\<close> does not throw: it returns the record stored under the path
  without its trailing extension, read in the store after the rebuild that the lookup
  may have started, and \<open>None\<close> when that key is not in the store. For a path \<open>p\<close> that
  does not itself end with the extension, the lookups of \<open>p\<close> and of \<open>p\<close> with the
  extension give the same result.
\<close>

theorem getDocByPath_lookup:
  assumes "indexed s \<or> getAllDocs env = Inr ids"
  shows "getDocByPath env p s
           = (Inr (map_of (documentIndex (storeAfterLookup env s)) (stripMd p)),
              storeAfterLookup env s) \<and>
         (\<not> suffix ''.md'' p \<longrightarrow>
            fst (getDocByPath env (p @ ''.md'') s) = fst (getDocByPath env p s)) \<and>
         (stripMd p \<notin> fst ` set (documentIndex (storeAfterLookup env s)) \<longrightarrow>
            fst (getDocByPath env p s) = Inr None)"
proof -
  have eq: "getDocByPath env q s
           = (Inr (map_of (documentIndex (storeAfterLookup env s)) (stripMd q)),
              storeAfterLookup env s)" for q
  proof (cases "indexed s")
    case True
    then show ?thesis by (simp add: getDocByPath_def storeAfterLookup_def)
  next
    case False
    with assms have "getAllDocs env = Inr ids" by simp
    then obtain s1 where "indexDocuments env s = (Inr (), s1)"
      by (simp add: indexDocuments_def)
    then show ?thesis
      using False by (simp add: getDocByPath_def storeAfterLookup_def)
  qed
  have same: "fst (getDocByPath env (p @ ''.md'') s) = fst (getDocByPath env p s)"
    if "\<not> suffix ''.md'' p"
    using that by (simp add: eq stripMd_append stripMd_plain)
  have miss: "fst (getDocByPath env p s) = Inr None"
    if "stripMd p \<notin> fst ` set (documentIndex (storeAfterLookup env s))"
    using that by (simp add: eq map_of_eq_None_iff)
  from eq same miss show ?thesis by blast
qed

theorem getDocByPath_lookup_witness:
  "getDocByPath envAB ''learn/a.md'' newEngine = (Inr (Some docA), storeAB) \<and>
   fst (getDocByPath envAB (''learn/a'' @ ''.md'') newEngine)
     = fst (getDocByPath envAB ''learn/a'' newEngine) \<and>
   fst (getDocByPath envAB ''learn/zzz'' newEngine) = Inr None"
proof -
  have listed: "indexed newEngine \<or>
      getAllDocs envAB = Inr [''learn/a.md'', ''learn/bad.md'', ''learn/b.md'']"
    by (simp add: envAB_def)
  have st: "storeAfterLookup envAB newEngine = storeAB"
    by (simp add: storeAfterLookup_def newEngine_def indexDocuments_def indexOne_def envAB_def
        storeAB_def docA_def docB_def)
  have plain: "\<not> suffix ''.md'' ''learn/a''"
    by (simp add: suffix_def)
  have absent: "stripMd ''learn/zzz'' \<notin> fst ` set (documentIndex (storeAfterLookup envAB newEngine))"
    by (simp add: st stripMd_def suffix_def storeAB_def)
  have found: "map_of (documentIndex storeAB) (stripMd ''learn/a.md'') = Some docA"
    by (simp add: stripMd_def suffix_def storeAB_def)
  have 1: "getDocByPath envAB ''learn/a.md'' newEngine
      = (Inr (map_of (documentIndex (storeAfterLookup envAB newEngine)) (stripMd ''learn/a.md'')),
         storeAfterLookup envAB newEngine)"
    using getDocByPath_lookup [OF listed, of "''learn/a.md''"] by blast
  have 2: "fst (getDocByPath envAB (''learn/a'' @ ''.md'') newEngine)
     = fst (getDocByPath envAB ''learn/a'' newEngine)"
    using getDocByPath_lookup [OF listed, of "''learn/a''"] plain by blast
  have 3: "fst (getDocByPath envAB ''learn/zzz'' newEngine) = Inr None"
    using getDocByPath_lookup [OF listed, of "''learn/zzz''"] absent by blast
  from 1 2 3 show ?thesis
    by (simp only: st found)
qed

text \<open>
  The claim as the specification words it fails in two places. The extension is stripped
  once: for a path \<open>p\<close> that ends with the extension, the lookup of \<open>p\<close> with one more
  extension reads the key \<open>p\<close>, the lookup of \<open>p\<close> reads a shorter key. And a lookup on an
  engine that is not built throws when the corpus cannot be listed.
\<close>

theorem getDocByPath_counterexample:
  "fst (getDocByPath envAB (''learn/a.md'' @ ''.md'') storeMd) = Inr (Some docMd) \<and>
   fst (getDocByPath envAB ''learn/a.md'' storeMd) = Inr None \<and>
   fst (getDocByPath (envAB\<lparr>getAllDocs := Inl (Error ''cannot list'')\<rparr>) ''learn/missing'' newEngine)
     = Inl (Error ''cannot list'')"
  by (simp add: getDocByPath_def stripMd_def suffix_def storeMd_def newEngine_def
      indexDocuments_def)


subsection \<open>Snippets\<close>

lemma indexOf_cases:
  "(indexOf s t = -1 \<and> (\<forall>j \<le> length s. \<not> prefix t (drop j s))) \<or>
   (\<exists>i \<le> length s. indexOf s t = int i \<and> prefix t (drop i s) \<and> (\<forall>j < i. \<not> prefix t (drop j s)))"
proof (induction s)
  case Nil
  show ?case by (cases "t = []") simp_all
next
  case (Cons c cs)
  show ?case
  proof (cases "prefix t (c # cs)")
    case True
    then show ?thesis by (intro disjI2 exI [of _ 0]) simp
  next
    case False
    from Cons.IH show ?thesis
    proof (elim disjE conjE exE)
      assume none: "indexOf cs t = -1" "\<forall>j \<le> length cs. \<not> prefix t (drop j cs)"
      have "\<not> prefix t (drop j (c # cs))" if "j \<le> length (c # cs)" for j
        using that False none(2) by (cases j) simp_all
      with none(1) False show ?thesis by simp
    next
      fix i
      assume some: "i \<le> length cs" "indexOf cs t = int i" "prefix t (drop i cs)"
        "\<forall>j < i. \<not> prefix t (drop j cs)"
      have "\<not> prefix t (drop j (c # cs))" if "j < Suc i" for j
        using that False some(4) by (cases j) simp_all
      with some False show ?thesis
        by (intro disjI2 exI [of _ "Suc i"]) (simp add: Let_def)
    qed
  qed
qed

lemma occursAt_lower:
  "toLowerCase t = t \<Longrightarrow>
   occursAt body t j = (j \<le> length (toLowerCase body) \<and> prefix t (drop j (toLowerCase body)))"
  by (simp add: occursAt_def toLowerCase_def drop_map)

lemma indexOf_occurs:
  assumes "toLowerCase t = t"
  shows "(indexOf (toLowerCase body) t = -1 \<and> (\<forall>j. \<not> occursAt body t j)) \<or>
         (\<exists>i. indexOf (toLowerCase body) t = int i \<and> occursAt body t i \<and>
              (\<forall>j < i. \<not> occursAt body t j))"
  using indexOf_cases [of "toLowerCase body" t]
  by (auto simp: occursAt_lower [OF assms])


lemma earliest_unique: "earliest body terms i \<Longrightarrow> earliest body terms i' \<Longrightarrow> i = i'"
  unfolding earliest_def by (meson linorder_neqE_nat)

lemma find_snoc:
  "find P (xs @ [x]) = (case find P xs of None \<Rightarrow> (if P x then Some x else None) | Some y \<Rightarrow> Some y)"
  by (induction xs) simp_all

lemma findFirstMatch_step:
  assumes lower: "toLowerCase tm = tm"
    and inv: "foundState body seen (firstMatchIndex, matchedTerm)"
  shows "foundState body (seen @ [tm])
           (let index = indexOf (toLowerCase body) tm
            in if index \<noteq> -1 \<and> (firstMatchIndex = -1 \<or> index < firstMatchIndex)
               then (index, tm) else (firstMatchIndex, matchedTerm))"
  using indexOf_occurs [OF lower, of body]
proof (elim disjE conjE exE)
  assume none: "indexOf (toLowerCase body) tm = -1" "\<forall>j. \<not> occursAt body tm j"
  from inv none(2) have "foundState body (seen @ [tm]) (firstMatchIndex, matchedTerm)"
    by (auto simp: foundState_def earliest_def find_snoc)
  with none(1) show ?thesis by simp
next
  fix k
  assume some: "indexOf (toLowerCase body) tm = int k" "occursAt body tm k"
    "\<forall>j < k. \<not> occursAt body tm j"
  from inv consider
      (empty) "firstMatchIndex = -1" "\<forall>t \<in> set seen. \<forall>j. \<not> occursAt body t j"
    | (found) i where "firstMatchIndex = int i" "earliest body seen i"
        "find (\<lambda>t. occursAt body t i) seen = Some matchedTerm"
    by (auto simp: foundState_def)
  then show ?thesis
  proof cases
    case empty
    have "find (\<lambda>t. occursAt body t k) seen = None"
      using empty(2) by (simp add: find_None_iff)
    then have "foundState body (seen @ [tm]) (int k, tm)"
      using empty(2) some(2,3) by (auto simp: foundState_def earliest_def find_snoc)
    with some(1) empty(1) show ?thesis by simp
  next
    case found
    show ?thesis
    proof (cases "k < i")
      case True
      have "find (\<lambda>t. occursAt body t k) seen = None"
        using found(2) True by (auto simp: find_None_iff earliest_def)
      then have "foundState body (seen @ [tm]) (int k, tm)"
        using found(2) True some(2,3) by (auto simp: foundState_def earliest_def find_snoc)
      with some(1) found(1) True show ?thesis by simp
    next
      case False
      have "foundState body (seen @ [tm]) (int i, matchedTerm)"
        using found(2,3) False some(3) by (auto simp: foundState_def earliest_def find_snoc)
      with some(1) found(1) False show ?thesis by simp
    qed
  qed
qed

lemma findFirstMatch_inv:
  "\<forall>t \<in> set ts. toLowerCase t = t \<Longrightarrow> foundState body seen found \<Longrightarrow>
   foundState body (seen @ ts) (findFirstMatch body ts found)"
proof (induction ts arbitrary: seen found)
  case Nil
  then show ?case by simp
next
  case (Cons tm ts)
  obtain firstMatchIndex matchedTerm where found: "found = (firstMatchIndex, matchedTerm)"
    by (cases found)
  let ?next = "let index = indexOf (toLowerCase body) tm
            in if index \<noteq> -1 \<and> (firstMatchIndex = -1 \<or> index < firstMatchIndex)
               then (index, tm) else (firstMatchIndex, matchedTerm)"
  have step: "foundState body (seen @ [tm]) ?next"
    using Cons.prems by (intro findFirstMatch_step) (simp_all add: found)
  have "foundState body ((seen @ [tm]) @ ts) (findFirstMatch body ts ?next)"
    using Cons.prems(1) step by (intro Cons.IH) simp_all
  moreover have "findFirstMatch body (tm # ts) found = findFirstMatch body ts ?next"
    by (simp add: found Let_def)
  ultimately show ?case by simp
qed


lemma slice_nat:
  assumes "a \<le> b" "b \<le> length xs"
  shows "slice xs (int a) (int b) = take (b - a) (drop a xs)"
proof -
  have "nat (int b - int a) = b - a" using assms(1) by simp
  then show ?thesis
    using assms by (simp add: slice_def Let_def min_def)
qed

lemma slice_take: "slice xs 0 (int n) = take n xs"
  by (simp add: slice_def Let_def min_def)

lemma snippet_window:
  assumes "i \<le> length body"
  shows "(let start = max 0 (int i - contextRadius);
              stop = min (int (length body)) (int i + int n + contextRadius);
              snippet0 = slice body start stop;
              snippet1 = (if 0 < start then ''...'' @ snippet0 else snippet0);
              snippet2 = (if stop < int (length body) then snippet1 @ ''...'' else snippet1)
          in trim snippet2) = trim (window body i n)"
proof -
  let ?a = "i - 75"
  let ?b = "min (length body) (i + n + 75)"
  have start: "max 0 (int i - 75) = int ?a" by auto
  have stop: "min (int (length body)) (int i + int n + 75) = int ?b" by auto
  have le: "?a \<le> ?b" "?b \<le> length body" using assms by auto
  show ?thesis
    unfolding contextRadius_def start stop Let_def slice_nat [OF le] window_def
    by simp
qed

text \<open>
  Claim C7, as the code has it. The terms are in lower case, as the terms of a query are.
  Either no term occurs in the body, or there is an earliest position at which one does.
  In the first case the snippet is the description of the record, or, when the
  description is absent or empty, the first 150 characters of the body followed by an
  ellipsis. In the second case the position does not depend on the order of the terms;
  the match is that of the first term of the list that occurs there, and the snippet is
  the window around it (75 characters before the position and 75 after the end of the
  match, within the body, with an ellipsis before iff the window does not start at
  position 0 and one after iff it does not reach the end of the body), stripped of
  leading and trailing white space.
\<close>

theorem generateSnippet_window:
  assumes "\<forall>t \<in> set terms. toLowerCase t = t"
  shows "(noOccurrence (plainText d) terms \<or> (\<exists>i. earliest (plainText d) terms i)) \<and>
         (noOccurrence (plainText d) terms \<longrightarrow> generateSnippet d terms = fallbackSnippet d) \<and>
         (\<forall>i. earliest (plainText d) terms i \<longrightarrow>
            (\<exists>t. find (\<lambda>t. occursAt (plainText d) t i) terms = Some t \<and>
                 generateSnippet d terms = trim (window (plainText d) i (length t))))"
proof -
  let ?body = "plainText d"
  obtain fi mt where res: "findFirstMatch ?body terms (-1, []) = (fi, mt)"
    by (cases "findFirstMatch ?body terms (-1, [])")
  have "foundState ?body [] (-1, [])"
    by (simp add: foundState_def)
  from findFirstMatch_inv [OF assms this]
  have inv: "foundState ?body terms (fi, mt)"
    by (simp add: res)
  then consider
      (none) "fi = -1" "\<forall>t \<in> set terms. \<forall>j. \<not> occursAt ?body t j"
    | (some) i where "fi = int i" "earliest ?body terms i"
        "find (\<lambda>t. occursAt ?body t i) terms = Some mt"
    by (auto simp: foundState_def)
  then show ?thesis
  proof cases
    case none
    have no: "noOccurrence ?body terms"
      using none(2) by (simp add: noOccurrence_def)
    have "\<not> earliest ?body terms i" for i
      using none(2) by (simp add: earliest_def)
    moreover have "generateSnippet d terms = fallbackSnippet d"
      using slice_take [of ?body 150]
      by (simp add: generateSnippet_def res none(1) fallbackSnippet_def split: option.splits)
    ultimately show ?thesis using no by simp
  next
    case some
    from some(2) obtain t where "t \<in> set terms" "occursAt ?body t i"
      by (auto simp: earliest_def)
    then have occ: "\<not> noOccurrence ?body terms" and i: "i \<le> length ?body"
      by (auto simp: noOccurrence_def occursAt_def)
    have "generateSnippet d terms = trim (window ?body i (length mt))"
      using snippet_window [OF i, of "length mt"]
      by (simp add: generateSnippet_def res some(1))
    with some(3) have "\<exists>t. find (\<lambda>t. occursAt ?body t i') terms = Some t \<and>
        generateSnippet d terms = trim (window ?body i' (length t))"
      if "earliest ?body terms i'" for i'
      using earliest_unique [OF some(2) that] by auto
    with occ some(2) show ?thesis by blast
  qed
qed

theorem generateSnippet_window_witness:
  "generateSnippet docB [''zzz''] = ''Routes'' \<and>
   generateSnippet docB [''state'', ''here''] = ''no state here'' \<and>
   find (\<lambda>t. occursAt (plainText docB) t 3) [''state'', ''here''] = Some ''state''"
proof -
  have low: "\<forall>t \<in> set [''zzz'']. toLowerCase t = t"
    "\<forall>t \<in> set [''state'', ''here'']. toLowerCase t = t"
    by (simp_all add: string_defs)
  have none: "noOccurrence (plainText docB) [''zzz'']"
    by (simp add: noOccurrence_def occursAt_def docB_def string_defs le_Suc_eq)
  have fb: "fallbackSnippet docB = ''Routes''"
    by (simp add: fallbackSnippet_def docB_def)
  have first: "earliest (plainText docB) [''state'', ''here''] 3"
    by (simp add: earliest_def occursAt_def docB_def string_defs less_Suc_eq numeral_3_eq_3)
  have fnd: "find (\<lambda>t. occursAt (plainText docB) t 3) [''state'', ''here''] = Some ''state''"
    by (simp add: occursAt_def docB_def string_defs numeral_3_eq_3)
  have win: "trim (window (plainText docB) 3 (length ''state'')) = ''no state here''"
    by (simp add: window_def docB_def string_defs)
  have 1: "generateSnippet docB [''zzz''] = fallbackSnippet docB"
    using generateSnippet_window [OF low(1), of docB] none by blast
  have 2: "\<exists>t. find (\<lambda>t. occursAt (plainText docB) t 3) [''state'', ''here''] = Some t \<and>
      generateSnippet docB [''state'', ''here''] = trim (window (plainText docB) 3 (length t))"
    using generateSnippet_window [OF low(2), of docB] first by blast
  from 2 obtain t where
    t: "find (\<lambda>t. occursAt (plainText docB) t 3) [''state'', ''here''] = Some t" and
    g: "generateSnippet docB [''state'', ''here''] = trim (window (plainText docB) 3 (length t))"
    by blast
  from t fnd have "t = ''state''" by (metis option.inject)
  with g win have "generateSnippet docB [''state'', ''here''] = ''no state here''"
    by (simp only:)
  with 1 fb fnd show ?thesis by (simp only:)
qed

text \<open>
  The claim as the specification words it fails in two places. The assembled snippet is
  trimmed: on a body that starts with a space and a match within the first 75
  characters, the snippet is not the window. And a description that is present but empty
  is passed over like an absent one.
\<close>

theorem generateSnippet_counterexample:
  "earliest (plainText docLead) [''use''] 1 \<and>
   window (plainText docLead) 1 (length ''use'') = '' use state'' \<and>
   generateSnippet docLead [''use''] = ''use state'' \<and>
   description (metadata docEmptyDescription) = Some [] \<and>
   noOccurrence (plainText docEmptyDescription) [''zzz''] \<and>
   generateSnippet docEmptyDescription [''zzz''] = ''use state...''"
proof -
  have 1: "earliest (plainText docLead) [''use''] 1"
    by (simp add: earliest_def occursAt_def docLead_def docA_def string_defs)
  have 2: "window (plainText docLead) 1 (length ''use'') = '' use state''"
    by (simp add: window_def docLead_def docA_def)
  have 3: "generateSnippet docLead [''use''] = ''use state''"
    by (simp add: generateSnippet_def contextRadius_def docLead_def docA_def string_defs)
  have 4: "description (metadata docEmptyDescription) = Some []"
    by (simp add: docEmptyDescription_def)
  have 5: "noOccurrence (plainText docEmptyDescription) [''zzz'']"
    by (simp add: noOccurrence_def occursAt_def docEmptyDescription_def docA_def string_defs
        le_Suc_eq)
  have 6: "generateSnippet docEmptyDescription [''zzz''] = ''use state...''"
    by (simp add: generateSnippet_def contextRadius_def docEmptyDescription_def docA_def
        string_defs)
  from 1 2 3 4 5 6 show ?thesis by blast
qed


subsection \<open>Keyword scoring\<close>

lemma parsePattern_plain:
  "\<forall>c \<in> set t. c \<notin> set (CHR 0x5C # ''*+?[]{}^$|().'') \<Longrightarrow>
   parsePattern depth t = (if depth = 0 then Sequence (map Lit t) else Invalid)"
  by (induction t) (auto simp: consAtom_def)

lemma lowerChar_idem: "lowerChar (lowerChar c) = lowerChar c"
  by (simp add: lowerChar_def)

lemma matchesAt_literal:
  "matchesAt (map Lit t) (toLowerCase body) = prefix (toLowerCase t) (toLowerCase body)"
proof (induction t arbitrary: body)
  case Nil
  show ?case by (simp add: toLowerCase_def)
next
  case (Cons c t)
  show ?case
  proof (cases body)
    case Nil
    then show ?thesis by (simp add: toLowerCase_def)
  next
    case (Cons b bs)
    with Cons.IH [of bs] show ?thesis
      by (auto simp: toLowerCase_def atomMatches_def lowerChar_idem)
  qed
qed

lemma countMatches_skip:
  "p \<noteq> [] \<Longrightarrow> countMatches p k s = countMatches p 0 (drop k s)"
proof (induction s arbitrary: k)
  case Nil
  then show ?case by simp
next
  case (Cons c cs)
  then show ?case by (cases k) simp_all
qed

lemma countMatches_literal:
  "t \<noteq> [] \<Longrightarrow>
   countMatches (map Lit t) 0 (toLowerCase body) = countOccurrences t body"
proof (induction t body rule: countOccurrences.induct)
  case (1 t body)
  show ?case
  proof (cases body)
    case Nil
    with "1.prems" show ?thesis
      by (simp add: countOccurrences.simps [of t "[]"] toLowerCase_def)
  next
    case (Cons b bs)
    show ?thesis
    proof (cases "prefix (toLowerCase t) (toLowerCase body)")
      case True
      have "countMatches (map Lit t) 0 (toLowerCase body)
          = 1 + countMatches (map Lit t) (length t - 1) (toLowerCase bs)"
        using True matchesAt_literal [of t body] by (simp add: Cons toLowerCase_def)
      also have "\<dots> = 1 + countMatches (map Lit t) 0 (drop (length t - 1) (toLowerCase bs))"
        using "1.prems" countMatches_skip [of "map Lit t"] by simp
      also have "drop (length t - 1) (toLowerCase bs) = toLowerCase (drop (length t) body)"
        using "1.prems" by (cases t) (simp_all add: Cons toLowerCase_def drop_map)
      also have "countMatches (map Lit t) 0 (toLowerCase (drop (length t) body))
          = countOccurrences t (drop (length t) body)"
        using "1.IH"(1) "1.prems" True Cons by simp
      finally show ?thesis
        using True "1.prems" Cons by (simp add: countOccurrences.simps [of t "b # bs"])
    next
      case False
      have "countMatches (map Lit t) 0 (toLowerCase body)
          = countMatches (map Lit t) 0 (toLowerCase bs)"
        using False matchesAt_literal [of t body] by (simp add: Cons toLowerCase_def)
      also have "\<dots> = countOccurrences t (tl body)"
        using "1.IH"(2) "1.prems" False Cons by simp
      finally show ?thesis
        using False "1.prems" Cons by (simp add: countOccurrences.simps [of t "b # bs"])
    qed
  qed
qed

text \<open>On terms made of ordinary characters \<open>scoreDocument\<close> returns the score of the
  specification.\<close>

lemma scoreTerm_plain:
  assumes "plainTerm t"
  shows "scoreTerm engine d t sc = Inr (sc + claimedTermScore d t)"
proof -
  have re: "RegExp engine t = Inr (Atoms (map Lit t))"
    using assms parsePattern_plain [of t 0] by (simp add: RegExp_def plainTerm_def)
  have cnt: "countMatches (map Lit t) 0 (toLowerCase (plainText d))
      = countOccurrences t (plainText d)"
    using assms by (intro countMatches_literal) (simp add: plainTerm_def)
  show ?thesis
    by (simp add: scoreTerm_def re matchCount_def cnt claimedTermScore_def Let_def
        split: option.splits)
qed

lemma scoreLoop_plain:
  "\<forall>t \<in> set queryTerms. plainTerm t \<Longrightarrow>
   scoreLoop engine d queryTerms sc = Inr (sc + claimedScore d queryTerms)"
  by (induction queryTerms arbitrary: sc) (simp_all add: claimedScore_def scoreTerm_plain)

lemma scoreDocument_plain_terms:
  "\<forall>t \<in> set queryTerms. plainTerm t \<Longrightarrow>
   scoreDocument engine d queryTerms = Inr (claimedScore d queryTerms)"
  by (simp add: scoreDocument_def scoreLoop_plain)

lemma example_terms_regexp:
  "queryTermsOf ''('' = [''('']"
  "queryTermsOf ''s.a'' = [''s.a'']"
  by (simp_all add: queryTermsOf_def string_defs)

text \<open>
  Claim C2. The claim does not hold of the code: the term reaches the constructor of
  regular expressions as it is. For the query \<open>(\<close> the keyword score of the
  specification is \<open>0\<close> on the record \<open>docA\<close>, and \<open>scoreDocument\<close> throws a syntax error;
  for the query \<open>s.a\<close> the score of the specification is \<open>0\<close> on the record \<open>docB\<close>, in
  which the term does not occur, and \<open>scoreDocument\<close> returns \<open>0.5\<close>, the wildcard
  matching the \<open>t\<close> of \<open>state\<close>. Both patterns are read by \<open>parsePattern\<close>, so this
  holds whatever the runtime does with the other patterns.
\<close>

theorem scoreDocument_unescaped_term:
  "scoreDocument engine docA (queryTermsOf ''('') = Inl SyntaxError \<and>
   claimedScore docA (queryTermsOf ''('') = 0 \<and>
   scoreDocument engine docB (queryTermsOf ''s.a'') = Inr 0.5 \<and>
   claimedScore docB (queryTermsOf ''s.a'') = 0"
proof -
  have 1: "scoreDocument engine docA [''(''] = Inl SyntaxError"
    by (simp add: scoreDocument_def scoreTerm_def regexp_defs)
  have 2: "claimedScore docA [''(''] = 0"
    by (simp add: claimedScore_def claimedTermScore_def countOccurrences.simps string_defs
        example_defs)
  have 3: "scoreDocument engine docB [''s.a''] = Inr 0.5"
    by (simp add: scoreDocument_def scoreTerm_def regexp_defs string_defs example_defs)
  have 4: "claimedScore docB [''s.a''] = 0"
    by (simp add: claimedScore_def claimedTermScore_def countOccurrences.simps string_defs
        example_defs)
  from 1 2 3 4 show ?thesis
    by (simp only: example_terms_regexp)
qed

text \<open>
  Claim C9. \<open>scoreTerm\<close> counts, for the body, the matches of the regular expression built
  from the raw term, and throws when the constructor does, whatever the runtime does with
  the patterns that \<open>parsePattern\<close> does not read. The constructor throws on the
  term \<open>(\<close>, and so does a search for the query \<open>(\<close>, which is not empty, in keyword
  mode and in hybrid mode, on a store with a record. The term \<open>s.a\<close> is read as a pattern
  with a wildcard: it has one match in the body \<open>no state here\<close>, in which it does not
  occur as a string, and a keyword search for it returns both records of the example
  store with the score \<open>0.5\<close>.
\<close>

theorem search_regexp_terms:
  "(\<forall>engine d tm sc. scoreTerm engine d tm sc =
      (case RegExp engine tm of
         Inl e \<Rightarrow> Inl e
       | Inr regex \<Rightarrow>
           Inr (sc + (if strIncludes (toLowerCase (title (metadata d))) tm then 10 else 0)
                   + (if strIncludes (toLowerCase (path d)) tm then 5 else 0)
                   + 0.5 * real (matchCount regex (toLowerCase (plainText d)))
                   + (if (case description (metadata d) of
                            None \<Rightarrow> False
                          | Some ds \<Rightarrow> strIncludes (toLowerCase ds) tm) then 3 else 0)))) \<and>
   (\<forall>p body. matchCount (Atoms p) body = countMatches p 0 body) \<and>
   (\<forall>engine. RegExp engine ''('' = Inl SyntaxError) \<and>
   trim ''('' = ''('' \<and>
   fst (search envAB ''('' keywordOptions storeAB) = Inl SyntaxError \<and>
   fst (search envAB ''('' noOptions storeAB) = Inl SyntaxError \<and>
   (\<forall>engine. RegExp engine ''s.a'' = Inr (Atoms [Lit CHR ''s'', AnyChar, Lit CHR ''a''])) \<and>
   countMatches [Lit CHR ''s'', AnyChar, Lit CHR ''a''] 0 ''no state here'' = 1 \<and>
   countOccurrences ''s.a'' ''no state here'' = 0 \<and>
   map_sum id (map (\<lambda>r. (path (doc r), score r)))
     (fst (search envAB ''s.a'' keywordOptions storeAB))
     = Inr [(''learn/a'', 0.5), (''learn/b'', 0.5)]"
proof -
  have general: "scoreTerm engine d tm sc =
      (case RegExp engine tm of
         Inl e \<Rightarrow> Inl e
       | Inr regex \<Rightarrow>
           Inr (sc + (if strIncludes (toLowerCase (title (metadata d))) tm then 10 else 0)
                   + (if strIncludes (toLowerCase (path d)) tm then 5 else 0)
                   + 0.5 * real (matchCount regex (toLowerCase (plainText d)))
                   + (if (case description (metadata d) of
                            None \<Rightarrow> False
                          | Some ds \<Rightarrow> strIncludes (toLowerCase ds) tm) then 3 else 0)))"
    for engine d tm sc
    by (simp add: scoreTerm_def Let_def split: sum.splits option.splits)
  have mc: "matchCount (Atoms p) body = countMatches p 0 body" for p body
    by (simp add: matchCount_def)
  have re: "RegExp engine ''('' = Inl SyntaxError" for engine
    by (simp add: regexp_defs)
  have tr: "trim ''('' = ''(''"
    by (simp add: string_defs)
  have ix: "indexed storeAB" "\<not> embeddingsGenerated storeAB"
    by (simp_all add: storeAB_def)
  have md: "\<not> useSemanticOf keywordOptions" "useSemanticOf noOptions"
    by (simp_all add: useSemanticOf_def keywordOptions_def noOptions_def
        semanticSearchEnabled_def)
  have sf: "sectionFilterOf keywordOptions = None" "sectionFilterOf noOptions = None"
    by (simp_all add: sectionFilterOf_def keywordOptions_def noOptions_def)
  have sc: "scoreDocument engine d [''(''] = Inl SyntaxError" for engine d
    by (simp add: scoreDocument_def scoreTerm_def regexp_defs)
  have kw: "fst (search envAB ''('' keywordOptions storeAB) = Inl SyntaxError"
    by (simp add: search_def ix md tr keywordSearch_def example_terms_regexp sf sc
        passesSection_def storeAB_def)
  have qe: "generateEmbedding envAB ''('' storeEmb
      = (Inr [0, 1], storeEmb\<lparr>pipelineCalls := pipelineCalls storeEmb @ [''(''] \<rparr>)"
    by (simp add: generateEmbedding_def storeEmb_def envAB_def string_defs)
  have cands: "candidates None (storeEmb\<lparr>pipelineCalls := pipelineCalls storeEmb @ [''(''] \<rparr>)
      = [docAe, docBe]"
    by (simp add: candidates_def passesSection_def storeEmb_def example_defs)
  have hy: "fst (search envAB ''('' noOptions storeAB) = Inl SyntaxError"
    by (simp add: search_def ix md tr semanticSearch_def example_pass qe cands
        example_terms_regexp sf sc)
  have re2: "RegExp engine ''s.a'' = Inr (Atoms [Lit CHR ''s'', AnyChar, Lit CHR ''a''])"
    for engine
    by (simp add: regexp_defs)
  have cm: "countMatches [Lit CHR ''s'', AnyChar, Lit CHR ''a''] 0 ''no state here'' = 1"
    by (simp add: regexp_defs string_defs)
  have co: "countOccurrences ''s.a'' ''no state here'' = 0"
    by (simp add: countOccurrences.simps string_defs)
  have tr2: "trim ''s.a'' \<noteq> []"
    by (simp add: string_defs)
  have scs: "scoreDocument engine docA [''s.a''] = Inr 0.5"
    "scoreDocument engine docB [''s.a''] = Inr 0.5" for engine
    by (simp_all add: scoreDocument_def scoreTerm_def regexp_defs string_defs example_defs)
  have vals: "map snd (documentIndex storeAB) = [docA, docB]"
    by (simp add: storeAB_def)
  have opts: "minScoreOf keywordOptions = 0.1" "limitOf keywordOptions = 10"
    by (simp_all add: minScoreOf_def limitOf_def keywordOptions_def noOptions_def
        configMinScore_def defaultLimit_def maxLimit_def)
  have paths: "path docA = ''learn/a''" "path docB = ''learn/b''"
    by (simp_all add: example_defs)
  have se: "map_sum id (map (\<lambda>r. (path (doc r), score r)))
     (fst (search envAB ''s.a'' keywordOptions storeAB))
     = Inr [(''learn/a'', 0.5), (''learn/b'', 0.5)]"
    by (simp add: search_def ix md tr2 keywordSearch_def example_terms_regexp sf scs
        passesSection_def vals opts paths sortByScore_def slice_def)
  from general mc re tr kw hy re2 cm co se show ?thesis
    by (intro conjI allI)
qed


subsection \<open>Query terms\<close>

text \<open>The terms of a query are in lower case: the assumption made above on the terms of a
  snippet holds of every search.\<close>

lemma splitSpaces_chars:
  "t \<in> set (splitSpaces inSep cur s) \<Longrightarrow> set t \<subseteq> set cur \<union> set s"
proof (induction s arbitrary: inSep cur t)
  case Nil
  then show ?case by simp
next
  case (Cons c cs)
  show ?case
  proof (cases "isSpace c")
    case False
    with Cons.prems have "t \<in> set (splitSpaces False (c # cur) cs)" by simp
    from Cons.IH [OF this] show ?thesis by auto
  next
    case True
    show ?thesis
    proof (cases inSep)
      case True
      with \<open>isSpace c\<close> Cons.prems have "t \<in> set (splitSpaces True cur cs)" by simp
      from Cons.IH [OF this] show ?thesis by auto
    next
      case False
      with \<open>isSpace c\<close> Cons.prems
      consider "t = rev cur" | "t \<in> set (splitSpaces True [] cs)" by auto
      then show ?thesis
      proof cases
        case 1
        then show ?thesis by auto
      next
        case 2
        from Cons.IH [OF this] show ?thesis by auto
      qed
    qed
  qed
qed

lemma queryTermsOf_lower: "t \<in> set (queryTermsOf query) \<Longrightarrow> toLowerCase t = t"
proof -
  assume "t \<in> set (queryTermsOf query)"
  then have "t \<in> set (splitSpaces False [] (toLowerCase query))"
    by (simp add: queryTermsOf_def)
  from splitSpaces_chars [OF this] have "set t \<subseteq> lowerChar ` set query"
    by (simp add: toLowerCase_def)
  then have "\<forall>c \<in> set t. lowerChar c = c"
    by (auto simp: lowerChar_idem)
  then show ?thesis
    by (simp add: toLowerCase_def map_idI)
qed

end
